theory Spec2Isabelle
  imports Main "HOL-Library.Word" "HOL-Library.Multiset"
begin

unbundle bit_operations_syntax

section \<open>Field masks, region-tree nodes and errors\<close>

text \<open>
  Modelled from the spec: the class \<^verbatim>\<open>FieldMask\<close> lives in a header outside
  \<^verbatim>\<open>legion_analysis.cc\<close>. The spec describes it as a dense bit set over field indices
  with union, intersection, difference, emptiness, equality and disjointness. Its width is
  left open: a mask is a \<open>'w word\<close> for any length \<open>'w\<close>. The operators of the source read
  \<^item> \<^verbatim>\<open>a | b\<close> as \<open>a OR b\<close>, \<^verbatim>\<open>a & b\<close> as \<open>a AND b\<close>,
  \<^item> \<^verbatim>\<open>a - b\<close> as \<open>a AND NOT b\<close>,
  \<^item> \<^verbatim>\<open>!a\<close> as \<open>a = 0\<close> (so \<^verbatim>\<open>!!a\<close> is \<open>a \<noteq> 0\<close>),
  \<^item> \<^verbatim>\<open>a * b\<close> (disjointness) as \<open>a AND b = 0\<close>.
  Field \<open>n\<close> belongs to mask \<open>a\<close> when \<open>bit a n\<close>.
\<close>

text \<open>
  The region forest is an external collaborator. The analysis only asks a node whether it
  dominates or intersects another one, so the forest is a pair of relations on node
  handles \<open>'n\<close>; pointer comparison of nodes is equality on \<open>'n\<close>.
\<close>

record 'n forest =
  dominates :: "'n \<Rightarrow> 'n \<Rightarrow> bool"
  intersects_with :: "'n \<Rightarrow> 'n \<Rightarrow> bool"

text \<open>
  Modelled from the spec: \<^verbatim>\<open>REPORT_LEGION_ERROR\<close> is a macro of a header that is not
  part of the analysed file. The error taxonomy calls each of these errors fatal for the
  operation, so a report ends the call with the error as its result.
\<close>

datatype error =
    ERROR_ILLEGAL_PARTIAL_ACQUIRE
  | ERROR_ILLEGAL_INTERFERING_ACQUIRE

section \<open>Restrictions and acquisitions\<close>

text \<open>
  A \<^verbatim>\<open>Restriction\<close> owns its \<^verbatim>\<open>Acquisition\<close>s and an acquisition owns the restrictions
  nested in it. Both hold their children in a \<^verbatim>\<open>std::set\<close> of pointers; the model keeps
  them as lists in iteration order and puts a newly allocated child last. The
  \<^verbatim>\<open>instances\<close> map of a restriction is an association list from manager handles \<open>'m\<close>
  to masks. The mask type is the parameter \<open>'f\<close>, instantiated with \<open>'w word\<close> below.
\<close>

datatype ('n, 'm, 'f) Restriction =
  Restriction (r_local_node: 'n) (restricted_fields: 'f)
              (instances: "('m \<times> 'f) list")
              (acquisitions: "('n, 'm, 'f) Acquisition list")
and ('n, 'm, 'f) Acquisition =
  Acquisition (a_local_node: 'n) (acquired_fields: 'f)
              (restrictions: "('n, 'm, 'f) Restriction list")

type_synonym ('n, 'm, 'w) restriction = "('n, 'm, 'w word) Restriction"
type_synonym ('n, 'm, 'w) acquisition = "('n, 'm, 'w word) Acquisition"

subsection \<open>Acquire\<close>

text \<open>
  \<^verbatim>\<open>Restriction::add_acquisition\<close> and \<^verbatim>\<open>Acquisition::add_acquisition\<close>. The mask
  argument is passed by reference in the source; the model returns its new value next to
  the updated object. Each loop returns a flag telling whether it left through its
  \<^verbatim>\<open>return\<close> statement (the mask it was working on became empty).
\<close>

fun Restriction_add_acquisition ::
    "'n forest \<Rightarrow> ('n, 'm, 'w::len) restriction \<Rightarrow> 'n \<Rightarrow> 'w word
      \<Rightarrow> error + (('n, 'm, 'w) restriction \<times> 'w word)"
and Restriction_add_acquisition_loop ::
    "'n forest \<Rightarrow> ('n, 'm, 'w) acquisition list \<Rightarrow> 'n \<Rightarrow> 'w word
      \<Rightarrow> error + (('n, 'm, 'w) acquisition list \<times> 'w word \<times> bool)"
and Acquisition_add_acquisition ::
    "'n forest \<Rightarrow> ('n, 'm, 'w) acquisition \<Rightarrow> 'n \<Rightarrow> 'w word
      \<Rightarrow> error + (('n, 'm, 'w) acquisition \<times> 'w word)"
and Acquisition_add_acquisition_loop ::
    "'n forest \<Rightarrow> ('n, 'm, 'w) restriction list \<Rightarrow> 'n \<Rightarrow> 'w word
      \<Rightarrow> error + (('n, 'm, 'w) restriction list \<times> 'w word \<times> bool)"
where
  "Restriction_add_acquisition F (Restriction ln rf insts acqs) node remaining_fields =
     (let overlap = rf AND remaining_fields in
      if overlap = 0 then Inr (Restriction ln rf insts acqs, remaining_fields)
      else if \<not> dominates F ln node then
        (if intersects_with F ln node then Inl ERROR_ILLEGAL_PARTIAL_ACQUIRE
         else Inr (Restriction ln rf insts acqs, remaining_fields))
      else
        (case Restriction_add_acquisition_loop F acqs node overlap of
           Inl e \<Rightarrow> Inl e
         | Inr (acqs', overlap', returned) \<Rightarrow>
             if returned
             then Inr (Restriction ln rf insts acqs', remaining_fields AND NOT overlap)
             else Inr (Restriction ln rf insts (acqs' @ [Acquisition node overlap' []]),
                       remaining_fields AND NOT overlap)))"
| "Restriction_add_acquisition_loop F [] node overlap = Inr ([], overlap, False)"
| "Restriction_add_acquisition_loop F (a # as) node overlap =
     (case Acquisition_add_acquisition F a node overlap of
        Inl e \<Rightarrow> Inl e
      | Inr (a', overlap') \<Rightarrow>
          if overlap' = 0 then Inr (a' # as, overlap', True)
          else (case Restriction_add_acquisition_loop F as node overlap' of
                  Inl e \<Rightarrow> Inl e
                | Inr (as', overlap'', returned) \<Rightarrow> Inr (a' # as', overlap'', returned)))"
| "Acquisition_add_acquisition F (Acquisition ln af rs) node remaining_fields =
     (if af AND remaining_fields = 0 then Inr (Acquisition ln af rs, remaining_fields)
      else if \<not> intersects_with F ln node then Inr (Acquisition ln af rs, remaining_fields)
      else
        (case Acquisition_add_acquisition_loop F rs node remaining_fields of
           Inl e \<Rightarrow> Inl e
         | Inr (rs', remaining', returned) \<Rightarrow>
             if returned then Inr (Acquisition ln af rs', remaining')
             else Inl ERROR_ILLEGAL_INTERFERING_ACQUIRE))"
| "Acquisition_add_acquisition_loop F [] node remaining_fields =
     Inr ([], remaining_fields, False)"
| "Acquisition_add_acquisition_loop F (r # rs) node remaining_fields =
     (case Restriction_add_acquisition F r node remaining_fields of
        Inl e \<Rightarrow> Inl e
      | Inr (r', remaining') \<Rightarrow>
          if remaining' = 0 then Inr (r' # rs, remaining', True)
          else (case Acquisition_add_acquisition_loop F rs node remaining' of
                  Inl e \<Rightarrow> Inl e
                | Inr (rs', remaining'', returned) \<Rightarrow> Inr (r' # rs', remaining'', returned)))"

subsection \<open>Release\<close>

text \<open>\<^verbatim>\<open>Restriction::remove_restricted_fields\<close>: \<^verbatim>\<open>remaining -= restricted_fields\<close>.\<close>

definition Restriction_remove_restricted_fields ::
    "('n, 'm, 'w::len) restriction \<Rightarrow> 'w word \<Rightarrow> 'w word" where
  "Restriction_remove_restricted_fields r remaining = remaining AND NOT (restricted_fields r)"

text \<open>
  The loop of \<^verbatim>\<open>Acquisition::matches\<close> over the nested restrictions; \<open>None\<close> is its
  \<^verbatim>\<open>return false\<close> (every overlapping field is restricted again below).
\<close>

fun Acquisition_matches_loop ::
    "('n, 'm, 'w::len) restriction list \<Rightarrow> 'w word \<Rightarrow> 'w word option" where
  "Acquisition_matches_loop [] overlap = Some overlap"
| "Acquisition_matches_loop (r # rs) overlap =
     (let overlap' = Restriction_remove_restricted_fields r overlap in
      if overlap' = 0 then None else Acquisition_matches_loop rs overlap')"

text \<open>
  \<^verbatim>\<open>Acquisition::matches\<close> returns its boolean, the acquisition as it is left, and the
  new value of \<^verbatim>\<open>remaining_fields\<close>.
\<close>

fun Acquisition_matches ::
    "('n, 'm, 'w::len) acquisition \<Rightarrow> 'n \<Rightarrow> 'w word
      \<Rightarrow> bool \<times> ('n, 'm, 'w) acquisition \<times> 'w word" where
  "Acquisition_matches (Acquisition ln af rs) node remaining_fields =
     (if ln \<noteq> node then (False, Acquisition ln af rs, remaining_fields)
      else let overlap = remaining_fields AND af in
        if overlap = 0 then (False, Acquisition ln af rs, remaining_fields)
        else (case Acquisition_matches_loop rs overlap of
                None \<Rightarrow> (False, Acquisition ln af rs, remaining_fields)
              | Some overlap' \<Rightarrow>
                  (let remaining' = remaining_fields AND NOT overlap';
                       af' = af AND NOT overlap'
                   in (af' = 0, Acquisition ln af' rs, remaining'))))"

text \<open>
  \<^verbatim>\<open>Restriction::remove_acquisition\<close> and \<^verbatim>\<open>Acquisition::remove_acquisition\<close>. The
  source collects the matched acquisitions in \<^verbatim>\<open>to_delete\<close> and erases them after the
  loop; no later iteration looks at them, so the model drops each one where it matches.
\<close>

lemma size_Acquisition_matches:
  "Acquisition_matches a node remaining_fields = (matched, a1, remaining1) \<Longrightarrow> size a1 = size a"
  by (cases a) (auto simp: Let_def split: option.splits if_splits)

function (sequential) Restriction_remove_acquisition ::
    "'n forest \<Rightarrow> ('n, 'm, 'w::len) restriction \<Rightarrow> 'n \<Rightarrow> 'w word
      \<Rightarrow> ('n, 'm, 'w) restriction \<times> 'w word"
and Restriction_remove_acquisition_loop ::
    "'n forest \<Rightarrow> ('n, 'm, 'w) acquisition list \<Rightarrow> 'n \<Rightarrow> 'w word
      \<Rightarrow> ('n, 'm, 'w) acquisition list \<times> 'w word"
and Acquisition_remove_acquisition ::
    "'n forest \<Rightarrow> ('n, 'm, 'w) acquisition \<Rightarrow> 'n \<Rightarrow> 'w word
      \<Rightarrow> ('n, 'm, 'w) acquisition \<times> 'w word"
and Acquisition_remove_acquisition_loop ::
    "'n forest \<Rightarrow> ('n, 'm, 'w) restriction list \<Rightarrow> 'n \<Rightarrow> 'w word
      \<Rightarrow> ('n, 'm, 'w) restriction list \<times> 'w word"
where
  "Restriction_remove_acquisition F (Restriction ln rf insts acqs) node remaining_fields =
     (if rf AND remaining_fields = 0 then (Restriction ln rf insts acqs, remaining_fields)
      else if \<not> intersects_with F ln node
        then (Restriction ln rf insts acqs, remaining_fields)
      else (case Restriction_remove_acquisition_loop F acqs node remaining_fields of
              (acqs', remaining') \<Rightarrow> (Restriction ln rf insts acqs', remaining')))"
| "Restriction_remove_acquisition_loop F [] node remaining_fields = ([], remaining_fields)"
| "Restriction_remove_acquisition_loop F (a # as) node remaining_fields =
     (case Acquisition_matches a node remaining_fields of
        (matched, a1, remaining1) \<Rightarrow>
          if matched then
            (if remaining1 = 0 then (as, remaining1)
             else Restriction_remove_acquisition_loop F as node remaining1)
          else
            (case (if remaining1 \<noteq> 0
                   then Acquisition_remove_acquisition F a1 node remaining1
                   else (a1, remaining1)) of
               (a2, remaining2) \<Rightarrow>
                 if remaining2 = 0 then (a2 # as, remaining2)
                 else (case Restriction_remove_acquisition_loop F as node remaining2 of
                         (as', remaining3) \<Rightarrow> (a2 # as', remaining3))))"
| "Acquisition_remove_acquisition F (Acquisition ln af rs) node remaining_fields =
     (if af AND remaining_fields = 0 then (Acquisition ln af rs, remaining_fields)
      else if \<not> dominates F ln node then (Acquisition ln af rs, remaining_fields)
      else (case Acquisition_remove_acquisition_loop F rs node remaining_fields of
              (rs', remaining') \<Rightarrow> (Acquisition ln af rs', remaining')))"
| "Acquisition_remove_acquisition_loop F [] node remaining_fields = ([], remaining_fields)"
| "Acquisition_remove_acquisition_loop F (r # rs) node remaining_fields =
     (case Restriction_remove_acquisition F r node remaining_fields of
        (r', remaining') \<Rightarrow>
          if remaining' = 0 then (r' # rs, remaining')
          else (case Acquisition_remove_acquisition_loop F rs node remaining' of
                  (rs', remaining'') \<Rightarrow> (r' # rs', remaining'')))"
  by pat_completeness auto

termination
  by (relation "measure (\<lambda>x. case x of
           Inl (Inl (F, r, node, remaining_fields)) \<Rightarrow> size r
         | Inl (Inr (F, as, node, remaining_fields)) \<Rightarrow> size_list size as
         | Inr (Inl (F, a, node, remaining_fields)) \<Rightarrow> size a
         | Inr (Inr (F, rs, node, remaining_fields)) \<Rightarrow> size_list size rs)")
     (auto dest: size_Acquisition_matches [OF sym])

subsection \<open>Detach\<close>

text \<open>\<^verbatim>\<open>Acquisition::remove_acquired_fields\<close>: \<^verbatim>\<open>remaining_fields -= acquired_fields\<close>.\<close>

definition Acquisition_remove_acquired_fields ::
    "('n, 'm, 'w::len) acquisition \<Rightarrow> 'w word \<Rightarrow> 'w word" where
  "Acquisition_remove_acquired_fields a remaining_fields =
     remaining_fields AND NOT (acquired_fields a)"

text \<open>
  The loop of \<^verbatim>\<open>Restriction::matches\<close> over the acquisitions; \<open>None\<close> is its
  \<^verbatim>\<open>return false\<close>.
\<close>

fun Restriction_matches_loop ::
    "('n, 'm, 'w::len) acquisition list \<Rightarrow> 'w word \<Rightarrow> 'w word option" where
  "Restriction_matches_loop [] overlap = Some overlap"
| "Restriction_matches_loop (a # as) overlap =
     (let overlap' = Acquisition_remove_acquired_fields a overlap in
      if overlap' = 0 then None else Restriction_matches_loop as overlap')"

text \<open>
  \<^verbatim>\<open>Restriction::matches\<close> returns its boolean, the restriction as it is left, the new
  value of \<^verbatim>\<open>remaining_fields\<close>, and the managers of \<^verbatim>\<open>to_delete\<close>, whose
  \<^verbatim>\<open>RESTRICTED_REF\<close> reference it gives back.
\<close>

fun Restriction_matches ::
    "('n, 'm, 'w::len) restriction \<Rightarrow> 'n \<Rightarrow> 'w word
      \<Rightarrow> bool \<times> ('n, 'm, 'w) restriction \<times> 'w word \<times> 'm list" where
  "Restriction_matches (Restriction ln rf insts acqs) node remaining_fields =
     (if ln \<noteq> node then (False, Restriction ln rf insts acqs, remaining_fields, [])
      else let overlap = remaining_fields AND rf in
        if overlap = 0 then (False, Restriction ln rf insts acqs, remaining_fields, [])
        else (case Restriction_matches_loop acqs overlap of
                None \<Rightarrow> (False, Restriction ln rf insts acqs, remaining_fields, [])
              | Some overlap' \<Rightarrow>
                  (let remaining' = remaining_fields AND NOT overlap';
                       rf' = rf AND NOT overlap'
                   in if rf' = 0 then (True, Restriction ln rf' insts acqs, remaining', [])
                      else
                        (let insts' = map (\<lambda>(m, fm). (m, fm AND NOT overlap')) insts;
                             to_delete = map fst (filter (\<lambda>(m, fm). fm = 0) insts')
                         in (False,
                             Restriction ln rf' (filter (\<lambda>(m, fm). fm \<noteq> 0) insts') acqs,
                             remaining', to_delete)))))"

subsection \<open>The restriction coordinator\<close>

text \<open>
  Modelled from the spec: the per-context coordinator that owns the top-level restrictions
  is not part of the analysed file. The spec gives its contract: \<^verbatim>\<open>record_acquire\<close>
  carves the acquisition out of the restrictions, \<^verbatim>\<open>record_release\<close> closes the matching
  acquisition, and \<^verbatim>\<open>record_detach\<close> removes the restriction that matches. Each walks
  the top-level restrictions with the member function of the source until no field
  remains, and returns the fields left over.
\<close>

fun record_acquire ::
    "'n forest \<Rightarrow> ('n, 'm, 'w::len) restriction list \<Rightarrow> 'n \<Rightarrow> 'w word
      \<Rightarrow> error + (('n, 'm, 'w) restriction list \<times> 'w word)" where
  "record_acquire F [] node fm = Inr ([], fm)"
| "record_acquire F (r # rs) node fm =
     (case Restriction_add_acquisition F r node fm of
        Inl e \<Rightarrow> Inl e
      | Inr (r', fm') \<Rightarrow>
          if fm' = 0 then Inr (r' # rs, fm')
          else (case record_acquire F rs node fm' of
                  Inl e \<Rightarrow> Inl e
                | Inr (rs', fm'') \<Rightarrow> Inr (r' # rs', fm'')))"

fun record_release ::
    "'n forest \<Rightarrow> ('n, 'm, 'w::len) restriction list \<Rightarrow> 'n \<Rightarrow> 'w word
      \<Rightarrow> ('n, 'm, 'w) restriction list \<times> 'w word" where
  "record_release F [] node fm = ([], fm)"
| "record_release F (r # rs) node fm =
     (case Restriction_remove_acquisition F r node fm of
        (r', fm') \<Rightarrow>
          if fm' = 0 then (r' # rs, fm')
          else (case record_release F rs node fm' of
                  (rs', fm'') \<Rightarrow> (r' # rs', fm'')))"

fun record_detach ::
    "('n, 'm, 'w::len) restriction list \<Rightarrow> 'n \<Rightarrow> 'w word
      \<Rightarrow> ('n, 'm, 'w) restriction list \<times> 'w word" where
  "record_detach [] node fm = ([], fm)"
| "record_detach (r # rs) node fm =
     (case Restriction_matches r node fm of
        (matched, r', fm', released) \<Rightarrow>
          if matched then (rs, fm')
          else if fm' = 0 then (r' # rs, fm')
          else (case record_detach rs node fm' of
                  (rs', fm'') \<Rightarrow> (r' # rs', fm'')))"

subsection \<open>Fields held by the acquisitions of a tree\<close>

text \<open>
  The union of the \<^verbatim>\<open>acquired_fields\<close> of every acquisition below a restriction (or
  in and below an acquisition): the fields that some acquisition of the tree records.
\<close>

fun Restriction_acquired :: "('n, 'm, 'w::len) restriction \<Rightarrow> 'w word"
and Acquisitions_acquired :: "('n, 'm, 'w) acquisition list \<Rightarrow> 'w word"
and Acquisition_acquired :: "('n, 'm, 'w) acquisition \<Rightarrow> 'w word"
and Restrictions_acquired :: "('n, 'm, 'w) restriction list \<Rightarrow> 'w word"
where
  "Restriction_acquired (Restriction ln rf insts acqs) = Acquisitions_acquired acqs"
| "Acquisitions_acquired [] = 0"
| "Acquisitions_acquired (a # as) = Acquisition_acquired a OR Acquisitions_acquired as"
| "Acquisition_acquired (Acquisition ln af rs) = af OR Restrictions_acquired rs"
| "Restrictions_acquired [] = 0"
| "Restrictions_acquired (r # rs) = Restriction_acquired r OR Restrictions_acquired rs"

text \<open>
  The fields a tree gives out at the moment: a field is held by an acquisition when the
  acquisition has acquired it and no restriction nested in it restricts it again, or when
  an acquisition below such a nested restriction holds it.
\<close>

fun Restrictions_restricted :: "('n, 'm, 'w::len) restriction list \<Rightarrow> 'w word" where
  "Restrictions_restricted [] = 0"
| "Restrictions_restricted (r # rs) = restricted_fields r OR Restrictions_restricted rs"

fun Restriction_held :: "('n, 'm, 'w::len) restriction \<Rightarrow> 'w word"
and Acquisitions_held :: "('n, 'm, 'w) acquisition list \<Rightarrow> 'w word"
and Acquisition_held :: "('n, 'm, 'w) acquisition \<Rightarrow> 'w word"
and Restrictions_held :: "('n, 'm, 'w) restriction list \<Rightarrow> 'w word"
where
  "Restriction_held (Restriction ln rf insts acqs) = Acquisitions_held acqs"
| "Acquisitions_held [] = 0"
| "Acquisitions_held (a # as) = Acquisition_held a OR Acquisitions_held as"
| "Acquisition_held (Acquisition ln af rs) =
     (af AND NOT (Restrictions_restricted rs)) OR Restrictions_held rs"
| "Restrictions_held [] = 0"
| "Restrictions_held (r # rs) = Restriction_held r OR Restrictions_held rs"

text \<open>
  The acquisitions of a tree, each as the pair of its node and its acquired fields, at
  every depth, and the union of the fields of such a list.
\<close>

fun Restriction_records :: "('n, 'm, 'w::len) restriction \<Rightarrow> ('n \<times> 'w word) list"
and Acquisitions_records :: "('n, 'm, 'w) acquisition list \<Rightarrow> ('n \<times> 'w word) list"
and Acquisition_records :: "('n, 'm, 'w) acquisition \<Rightarrow> ('n \<times> 'w word) list"
and Restrictions_records :: "('n, 'm, 'w) restriction list \<Rightarrow> ('n \<times> 'w word) list"
where
  "Restriction_records (Restriction ln rf insts acqs) = Acquisitions_records acqs"
| "Acquisitions_records [] = []"
| "Acquisitions_records (a # as) = Acquisition_records a @ Acquisitions_records as"
| "Acquisition_records (Acquisition ln af rs) = (ln, af) # Restrictions_records rs"
| "Restrictions_records [] = []"
| "Restrictions_records (r # rs) = Restriction_records r @ Restrictions_records rs"

fun fields_of :: "('n \<times> 'w::len word) list \<Rightarrow> 'w word" where
  "fields_of [] = 0"
| "fields_of (p # ps) = snd p OR fields_of ps"

text \<open>
  A forest for the examples: a node is the set of its points, it dominates the nodes it
  contains and intersects the nodes it shares a point with.
\<close>

definition point_forest :: "nat set forest" where
  "point_forest = \<lparr>dominates = (\<lambda>a b. b \<subseteq> a), intersects_with = (\<lambda>a b. a \<inter> b \<noteq> {})\<rparr>"

section \<open>Logical state\<close>

subsection \<open>Field states\<close>

text \<open>
  The open states of \<^verbatim>\<open>FieldState\<close>. A field state carries the mask of its fields, the
  open children with their masks, the open state, the reduction operator (\<open>0\<close> for none),
  and the projection function and projection space of a projection state (\<open>None\<close> for
  the null pointer). The types of reduction operator ids, colours, projection functions
  and index-space nodes are declared outside the analysed file and are parameters here.
\<close>

datatype OpenState =
    NOT_OPEN
  | OPEN_READ_ONLY
  | OPEN_READ_WRITE
  | OPEN_SINGLE_REDUCE
  | OPEN_MULTI_REDUCE
  | OPEN_READ_ONLY_PROJ
  | OPEN_READ_WRITE_PROJ
  | OPEN_READ_WRITE_PROJ_DISJOINT_SHALLOW
  | OPEN_REDUCE_PROJ
  | OPEN_REDUCE_PROJ_DIRTY

record ('f, 'c, 'r, 'p, 's) FieldState =
  valid_fields :: 'f
  open_children :: "('c \<times> 'f) list"
  open_state :: OpenState
  redop :: 'r
  projection :: "'p option"
  projection_space :: "'s option"
  rebuild_timeout :: nat

text \<open>\<^verbatim>\<open>FieldState::overlaps\<close>, test by test.\<close>

definition FieldState_overlaps ::
    "('w::len word, 'c, 'r::zero, 'p, 's) FieldState
      \<Rightarrow> ('w word, 'c, 'r, 'p, 's) FieldState \<Rightarrow> bool" where
  "FieldState_overlaps lhs rhs =
     (if redop lhs \<noteq> redop rhs then False
      else if projection lhs \<noteq> projection rhs then False
      else if projection lhs \<noteq> None \<and> projection_space lhs \<noteq> projection_space rhs then False
      else if redop lhs = 0 then open_state lhs = open_state rhs
      else FieldState.valid_fields lhs = FieldState.valid_fields rhs)"

subsection \<open>Projection epochs\<close>

text \<open>
  A \<^verbatim>\<open>ProjectionEpoch\<close> has an epoch id, the mask of its fields and the projections
  written in it; the constructor leaves the latter empty. The type of epoch ids is declared
  outside the analysed file: it is any linearly ordered type \<open>'e\<close> with \<open>1\<close> and \<open>+\<close>,
  which covers an unbounded counter as well as a machine word that wraps around.
\<close>

record ('e, 'f, 'p, 's) ProjectionEpoch =
  epoch_id :: 'e
  valid_fields :: 'f
  write_projections :: "('p \<times> 's list) list"

definition new_ProjectionEpoch :: "'e \<Rightarrow> 'f \<Rightarrow> ('e, 'f, 'p, 's) ProjectionEpoch" where
  "new_ProjectionEpoch eid m = \<lparr>epoch_id = eid, valid_fields = m, write_projections = []\<rparr>"

text \<open>
  The local \<^verbatim>\<open>std::map\<close> \<^verbatim>\<open>to_add\<close> of \<^verbatim>\<open>advance_projection_epochs\<close> is an association
  list kept in key order. This is the \<^verbatim>\<open>find\<close> on it followed by either the insertion of
  a new epoch or the update of the epoch found.
\<close>

fun to_add_update ::
    "'e::linorder \<Rightarrow> 'w::len word \<Rightarrow> ('e \<times> ('e, 'w word, 'p, 's) ProjectionEpoch) list
      \<Rightarrow> ('e \<times> ('e, 'w word, 'p, 's) ProjectionEpoch) list" where
  "to_add_update next_epoch_id overlap [] =
     [(next_epoch_id, new_ProjectionEpoch next_epoch_id overlap)]"
| "to_add_update next_epoch_id overlap ((k, next_epoch) # to_add) =
     (if next_epoch_id = k
      then (k, next_epoch\<lparr>ProjectionEpoch.valid_fields :=
                 ProjectionEpoch.valid_fields next_epoch OR overlap\<rparr>) # to_add
      else if next_epoch_id < k
      then (next_epoch_id, new_ProjectionEpoch next_epoch_id overlap) # (k, next_epoch) # to_add
      else (k, next_epoch) # to_add_update next_epoch_id overlap to_add)"

text \<open>
  The first loop of \<^verbatim>\<open>LogicalState::advance_projection_epochs\<close>: it returns the epochs
  that stay in the list and the final \<^verbatim>\<open>to_add\<close>.
\<close>

fun advance_projection_epochs_loop ::
    "('e::{linorder,one,plus}, 'w::len word, 'p, 's) ProjectionEpoch list \<Rightarrow> 'w word
      \<Rightarrow> ('e \<times> ('e, 'w word, 'p, 's) ProjectionEpoch) list
      \<Rightarrow> ('e, 'w word, 'p, 's) ProjectionEpoch list
          \<times> ('e \<times> ('e, 'w word, 'p, 's) ProjectionEpoch) list" where
  "advance_projection_epochs_loop [] advance_mask to_add = ([], to_add)"
| "advance_projection_epochs_loop (e # es) advance_mask to_add =
     (let overlap = ProjectionEpoch.valid_fields e AND advance_mask in
      if overlap = 0 then
        (case advance_projection_epochs_loop es advance_mask to_add of
           (es', to_add') \<Rightarrow> (e # es', to_add'))
      else
        (let next_epoch_id = epoch_id e + 1;
             to_add1 = to_add_update next_epoch_id overlap to_add;
             e' = e\<lparr>ProjectionEpoch.valid_fields :=
                      ProjectionEpoch.valid_fields e AND NOT overlap\<rparr>
         in if ProjectionEpoch.valid_fields e' = 0
            then advance_projection_epochs_loop es advance_mask to_add1
            else (case advance_projection_epochs_loop es advance_mask to_add1 of
                    (es', to_add') \<Rightarrow> (e' # es', to_add'))))"

text \<open>
  \<^verbatim>\<open>LogicalState::advance_projection_epochs\<close> on the list of projection epochs: the new
  epochs are pushed to the back in the key order of \<^verbatim>\<open>to_add\<close>.
\<close>

definition advance_projection_epochs ::
    "('e::{linorder,one,plus}, 'w::len word, 'p, 's) ProjectionEpoch list \<Rightarrow> 'w word
      \<Rightarrow> ('e, 'w word, 'p, 's) ProjectionEpoch list" where
  "advance_projection_epochs projection_epochs advance_mask =
     (case advance_projection_epochs_loop projection_epochs advance_mask [] of
        (es', to_add) \<Rightarrow> es' @ map snd to_add)"

text \<open>
  The invariant of the list of projection epochs: every epoch has a field, and two epochs
  of the list with the same epoch id share no field.
\<close>

fun epochs_disjoint :: "('e, 'w::len word, 'p, 's) ProjectionEpoch list \<Rightarrow> bool" where
  "epochs_disjoint [] = True"
| "epochs_disjoint (e # es) =
     ((\<forall>e'\<in>set es. epoch_id e' = epoch_id e \<longrightarrow>
          ProjectionEpoch.valid_fields e AND ProjectionEpoch.valid_fields e' = 0)
      \<and> epochs_disjoint es)"

definition projection_epochs_ok :: "('e, 'w::len word, 'p, 's) ProjectionEpoch list \<Rightarrow> bool" where
  "projection_epochs_ok es =
     ((\<forall>e\<in>set es. ProjectionEpoch.valid_fields e \<noteq> 0) \<and> epochs_disjoint es)"

text \<open>Field \<open>n\<close> lies in an epoch of the list with id \<open>k\<close>.\<close>

definition in_epoch ::
    "('e, 'w::len word, 'p, 's) ProjectionEpoch list \<Rightarrow> 'e \<Rightarrow> nat \<Rightarrow> bool" where
  "in_epoch es k n = (\<exists>e\<in>set es. epoch_id e = k \<and> bit (ProjectionEpoch.valid_fields e) n)"

text \<open>
  What the first loop maintains about \<^verbatim>\<open>to_add\<close>: the keys are in increasing order,
  and each entry holds an epoch with the id of its key and with at least one field, all of
  them in the advance mask.
\<close>

definition to_add_ok ::
    "'w::len word \<Rightarrow> ('e::linorder \<times> ('e, 'w word, 'p, 's) ProjectionEpoch) list \<Rightarrow> bool" where
  "to_add_ok advance_mask to_add =
     (sorted_wrt (<) (map fst to_add) \<and>
      (\<forall>x\<in>set to_add. epoch_id (snd x) = fst x \<and>
           ProjectionEpoch.valid_fields (snd x) \<noteq> 0 \<and>
           ProjectionEpoch.valid_fields (snd x) AND NOT advance_mask = 0))"

subsection \<open>Users and the logical state of a node\<close>

text \<open>
  Modelled from the spec: the privilege and coherence enumerations and the macros
  \<^verbatim>\<open>IS_READ_ONLY\<close>, \<^verbatim>\<open>IS_WRITE\<close> and \<^verbatim>\<open>IS_REDUCE\<close> come from headers that are not
  part of the analysed file. The spec lists the privileges as NoAccess, ReadOnly, ReadWrite,
  WriteDiscard and Reduce. Which privileges each macro accepts is read off the code that
  uses them: the constructor of \<^verbatim>\<open>FieldState\<close> tests \<^verbatim>\<open>IS_READ_ONLY\<close>, then
  \<^verbatim>\<open>IS_WRITE\<close>, then \<^verbatim>\<open>IS_REDUCE\<close>, and opens a reduction in the third branch, so
  \<^verbatim>\<open>IS_WRITE\<close> holds for the two privileges that write without reducing and not for a
  reduction. A usage without access writes nothing and reduces nothing and counts as
  read-only, so that the constructor sets the open state for every privilege.
\<close>

datatype PrivilegeMode = NO_ACCESS | READ_ONLY | READ_WRITE | WRITE_DISCARD | REDUCE

datatype CoherenceProperty = EXCLUSIVE | ATOMIC | SIMULTANEOUS | RELAXED

record 'r RegionUsage =
  privilege :: PrivilegeMode
  usage_prop :: CoherenceProperty
  redop :: 'r

definition IS_READ_ONLY :: "'r RegionUsage \<Rightarrow> bool" where
  "IS_READ_ONLY usage = (privilege usage = NO_ACCESS \<or> privilege usage = READ_ONLY)"

definition IS_WRITE :: "'r RegionUsage \<Rightarrow> bool" where
  "IS_WRITE usage = (privilege usage = READ_WRITE \<or> privilege usage = WRITE_DISCARD)"

definition IS_REDUCE :: "'r RegionUsage \<Rightarrow> bool" where
  "IS_REDUCE usage = (privilege usage = REDUCE)"

text \<open>
  The constructor \<^verbatim>\<open>FieldState::FieldState(const GenericUser&, const FieldMask&, const
  LegionColor)\<close>, which reads only the usage of the user. The three tests have no final
  \<^verbatim>\<open>else\<close>: a usage that none of them accepts would leave \<^verbatim>\<open>open_state\<close> unset, which
  is the result \<open>None\<close>.
\<close>

definition new_FieldState ::
    "'r::zero RegionUsage \<Rightarrow> 'w::len word \<Rightarrow> 'c \<Rightarrow> ('w word, 'c, 'r, 'p, 's) FieldState option" where
  "new_FieldState user_usage m c =
     (let init = (\<lambda>st rd. \<lparr>FieldState.valid_fields = m, open_children = [(c, m)],
                           open_state = st, FieldState.redop = rd, projection = None,
                           projection_space = None, rebuild_timeout = 1\<rparr>)
      in if IS_READ_ONLY user_usage then Some (init OPEN_READ_ONLY 0)
         else if IS_WRITE user_usage then Some (init OPEN_READ_WRITE 0)
         else if IS_REDUCE user_usage then Some (init OPEN_SINGLE_REDUCE (redop user_usage))
         else None)"

text \<open>
  A \<^verbatim>\<open>LogicalUser\<close>: the usage and field mask of its \<^verbatim>\<open>GenericUser\<close> base, the
  operation with the generation and requirement index it was registered under, and the
  timeout counter.
\<close>

record ('o, 'f, 'r) LogicalUser =
  usage :: "'r RegionUsage"
  field_mask :: 'f
  op :: 'o
  idx :: nat
  gen :: nat
  timeout :: nat

record ('n, 'o, 'f, 'c, 'r, 'p, 's, 'e) LogicalState =
  owner :: 'n
  field_states :: "('f, 'c, 'r, 'p, 's) FieldState list"
  curr_epoch_users :: "('o, 'f, 'r) LogicalUser list"
  prev_epoch_users :: "('o, 'f, 'r) LogicalUser list"
  reduction_fields :: 'f
  outstanding_reductions :: "('r \<times> 'f) list"
  projection_epochs :: "('e, 'f, 'p, 's) ProjectionEpoch list"

text \<open>
  \<^verbatim>\<open>LogicalState::clear_logical_users\<close> gives back the mapping reference of every user
  of both lists: the result holds the new state and the calls
  \<^verbatim>\<open>op->remove_mapping_reference(gen)\<close> it made, in order.
\<close>

definition clear_logical_users ::
    "('n, 'o, 'w::len word, 'c, 'r, 'p, 's, 'e) LogicalState
      \<Rightarrow> ('n, 'o, 'w word, 'c, 'r, 'p, 's, 'e) LogicalState \<times> ('o \<times> nat) list" where
  "clear_logical_users st =
     (st\<lparr>curr_epoch_users := [], prev_epoch_users := []\<rparr>,
      map (\<lambda>u. (op u, gen u)) (curr_epoch_users st) @
      map (\<lambda>u. (op u, gen u)) (prev_epoch_users st))"

text \<open>
  \<^verbatim>\<open>LogicalState::reset\<close>. Deleting the projection epochs is dropping them from the
  list, which owns them.
\<close>

definition LogicalState_reset ::
    "('n, 'o, 'w::len word, 'c, 'r, 'p, 's, 'e) LogicalState
      \<Rightarrow> ('n, 'o, 'w word, 'c, 'r, 'p, 's, 'e) LogicalState \<times> ('o \<times> nat) list" where
  "LogicalState_reset st =
     (case clear_logical_users (st\<lparr>field_states := []\<rparr>) of
        (st', removed) \<Rightarrow>
          (st'\<lparr>reduction_fields := 0, outstanding_reductions := [], projection_epochs := []\<rparr>,
           removed))"

section \<open>Versioning\<close>

subsection \<open>Reference counts of equivalence sets\<close>

text \<open>
  Modelled from the spec: an \<^verbatim>\<open>EquivalenceSet\<close> is reference counted, shared between
  the version manager that owns it and every \<^verbatim>\<open>VersionInfo\<close> that refers to it; the
  counting itself is inherited from a class outside the analysed file. The model keeps,
  for every set handle \<open>'q\<close>, the number of base resource references held on it, and logs
  the sets that were deleted. \<^verbatim>\<open>add_base_resource_ref\<close> adds one reference;
  \<^verbatim>\<open>remove_base_resource_ref\<close> takes one away and tells whether none is left, in which
  case the caller deletes the set. Callers only pass handles of sets that are alive.
\<close>

record 'q collectables =
  resource_refs :: "'q \<Rightarrow> nat"
  deleted :: "'q list"

definition add_base_resource_ref :: "'q \<Rightarrow> 'q collectables \<Rightarrow> 'q collectables" where
  "add_base_resource_ref q W = W\<lparr>resource_refs := (resource_refs W)(q := resource_refs W q + 1)\<rparr>"

definition remove_base_resource_ref ::
    "'q \<Rightarrow> 'q collectables \<Rightarrow> bool \<times> 'q collectables" where
  "remove_base_resource_ref q W =
     (resource_refs W q - 1 = 0,
      W\<lparr>resource_refs := (resource_refs W)(q := resource_refs W q - 1)\<rparr>)"

text \<open>
  The loop shared by \<^verbatim>\<open>VersionInfo::clear\<close> and \<^verbatim>\<open>VersionManager::reset\<close>: remove one
  reference from each set and delete the set when that was the last one.
\<close>

fun release_sets :: "'q list \<Rightarrow> 'q collectables \<Rightarrow> 'q collectables" where
  "release_sets [] W = W"
| "release_sets (q # qs) W =
     (case remove_base_resource_ref q W of
        (last_ref, W') \<Rightarrow>
          release_sets qs (if last_ref then W'\<lparr>deleted := deleted W' @ [q]\<rparr> else W'))"

subsection \<open>VersionInfo\<close>

text \<open>
  The \<^verbatim>\<open>std::set\<close> of equivalence sets is a list without repetitions in the order of
  the handles, which is the order the source iterates in.
\<close>

record 'q VersionInfo =
  equivalence_sets :: "'q list"

definition new_VersionInfo :: "'q VersionInfo" where
  "new_VersionInfo = \<lparr>equivalence_sets = []\<rparr>"

definition record_equivalence_set ::
    "'q::linorder \<Rightarrow> 'q VersionInfo \<times> 'q collectables \<Rightarrow> 'q VersionInfo \<times> 'q collectables" where
  "record_equivalence_set q s =
     (case s of (vi, W) \<Rightarrow>
        if q \<in> set (equivalence_sets vi) then (vi, W)
        else (vi\<lparr>equivalence_sets := insort q (equivalence_sets vi)\<rparr>,
              add_base_resource_ref q W))"

definition VersionInfo_clear ::
    "'q VersionInfo \<times> 'q collectables \<Rightarrow> 'q VersionInfo \<times> 'q collectables" where
  "VersionInfo_clear s =
     (case s of (vi, W) \<Rightarrow>
        if equivalence_sets vi \<noteq> []
        then (vi\<lparr>equivalence_sets := []\<rparr>, release_sets (equivalence_sets vi) W)
        else (vi, W))"

text \<open>A call of one of the two, and a sequence of such calls on a fresh \<^verbatim>\<open>VersionInfo\<close>.\<close>

datatype 'q VersionInfo_call = Record 'q | Clear

fun VersionInfo_step ::
    "'q::linorder VersionInfo_call \<Rightarrow> 'q VersionInfo \<times> 'q collectables
      \<Rightarrow> 'q VersionInfo \<times> 'q collectables" where
  "VersionInfo_step (Record q) s = record_equivalence_set q s"
| "VersionInfo_step Clear s = VersionInfo_clear s"

definition VersionInfo_run ::
    "'q::linorder VersionInfo_call list \<Rightarrow> 'q collectables \<Rightarrow> 'q VersionInfo \<times> 'q collectables" where
  "VersionInfo_run calls W = fold VersionInfo_step calls (new_VersionInfo, W)"

text \<open>
  The balance between a \<^verbatim>\<open>VersionInfo\<close> and the reference counts, relative to the
  counts \<open>W0\<close> before it recorded anything: no set is stored twice, a stored set holds one
  reference more than in \<open>W0\<close>, and every other set holds what it held in \<open>W0\<close>.
\<close>

definition VersionInfo_balanced ::
    "'q collectables \<Rightarrow> 'q VersionInfo \<times> 'q collectables \<Rightarrow> bool" where
  "VersionInfo_balanced W0 s =
     (distinct (equivalence_sets (fst s)) \<and>
      (\<forall>q. resource_refs (snd s) q =
            resource_refs W0 q + (if q \<in> set (equivalence_sets (fst s)) then 1 else 0)))"

text \<open>
  \<^verbatim>\<open>VersionInfo::make_ready\<close> calls \<^verbatim>\<open>request_valid_copy\<close> on every recorded set; the
  result is the list of these calls, each with its target, the mask and the exclusive
  flag. The ready and applied events the calls add to belong to the equivalence sets.
\<close>

record ('q, 'f) valid_copy_request =
  target :: 'q
  request_mask :: 'f
  exclusive :: bool

definition make_ready ::
    "'q VersionInfo \<Rightarrow> 'r RegionUsage \<Rightarrow> 'w::len word \<Rightarrow> ('q, 'w word) valid_copy_request list" where
  "make_ready vi u ready_mask =
     (let excl = IS_WRITE u in
      map (\<lambda>q. \<lparr>target = q, request_mask = ready_mask, exclusive = excl\<rparr>)
          (equivalence_sets vi))"

subsection \<open>VersionManager\<close>

text \<open>
  The fields of a \<^verbatim>\<open>VersionManager\<close> that \<^verbatim>\<open>reset\<close> reads or writes, and the context
  and node it belongs to. \<open>None\<close> is the null context and the constant
  \<^verbatim>\<open>NO_RT_USER_EVENT\<close>. The lock taken by \<^verbatim>\<open>reset\<close> makes the call atomic; the model
  is sequential.
\<close>

record ('x, 'n, 'q, 'v) VersionManager =
  ctx :: nat
  vm_node :: 'n
  current_context :: "'x option"
  is_owner :: bool
  has_equivalence_sets :: bool
  vm_equivalence_sets :: "'q list"
  equivalence_sets_ready :: "'v option"

definition VersionManager_reset ::
    "('x, 'n, 'q, 'v) VersionManager \<times> 'q collectables
      \<Rightarrow> ('x, 'n, 'q, 'v) VersionManager \<times> 'q collectables" where
  "VersionManager_reset s =
     (case s of (vm, W) \<Rightarrow>
        (vm\<lparr>is_owner := False, current_context := None, vm_equivalence_sets := [],
            equivalence_sets_ready := None, has_equivalence_sets := False\<rparr>,
         if vm_equivalence_sets vm \<noteq> [] then release_sets (vm_equivalence_sets vm) W else W))"

section \<open>Instance references and instance sets\<close>

subsection \<open>InstanceRef\<close>

text \<open>
  An \<^verbatim>\<open>InstanceRef\<close> holds the mask of its valid fields, its ready event, a pointer to
  its physical manager and the flag \<^verbatim>\<open>local\<close>. \<open>None\<close> is the event \<^verbatim>\<open>NO_AP_EVENT\<close>
  and the null manager. The default constructor gives the empty mask, no event, no manager
  and \<^verbatim>\<open>local = true\<close>.
\<close>

record ('m, 'f, 'v) InstanceRef =
  valid_fields :: 'f
  ready_event :: "'v option"
  manager :: "'m option"
  local :: bool

definition new_InstanceRef :: "('m, 'w::len word, 'v) InstanceRef" where
  "new_InstanceRef = \<lparr>valid_fields = 0, ready_event = None, manager = None, local = True\<rparr>"

text \<open>\<^verbatim>\<open>InstanceRef::operator==\<close>; \<^verbatim>\<open>operator!=\<close> is its negation.\<close>

definition InstanceRef_eq ::
    "('m, 'w::len word, 'v) InstanceRef \<Rightarrow> ('m, 'w word, 'v) InstanceRef \<Rightarrow> bool" where
  "InstanceRef_eq lhs rhs =
     (if InstanceRef.valid_fields lhs \<noteq> InstanceRef.valid_fields rhs then False
      else if ready_event lhs \<noteq> ready_event rhs then False
      else if manager lhs \<noteq> manager rhs then False
      else True)"

subsection \<open>The runtime and the wire\<close>

text \<open>
  The runtime is an external collaborator: it knows the distributed id of every manager
  and finds the manager for a distributed id, together with an event that is \<open>None\<close>
  when the manager is there already. Distributed ids are 64-bit, as in the wire format of
  the spec.
\<close>

record ('m, 'e) Runtime =
  did :: "'m \<Rightarrow> 64 word"
  find_or_request_physical_manager :: "64 word \<Rightarrow> 'm \<times> 'e option"

text \<open>
  Modelled from the spec: \<^verbatim>\<open>Serializer\<close> and \<^verbatim>\<open>Deserializer\<close> are classes outside the
  analysed file. A buffer is the sequence of the values written to it, each tagged with
  its type; \<^verbatim>\<open>serialize\<close> appends a value and \<^verbatim>\<open>deserialize\<close> takes the first one.
  Reading a value of another type, or from an empty buffer, is undefined and gives
  \<open>None\<close>.
\<close>

datatype ('f, 'v) wire =
    W_size nat
  | W_mask 'f
  | W_event "'v option"
  | W_did "64 word"

text \<open>\<^verbatim>\<open>InstanceRef::pack_reference\<close> and \<^verbatim>\<open>InstanceRef::unpack_reference\<close>.\<close>

definition pack_reference ::
    "('m, 'e) Runtime \<Rightarrow> ('m, 'w::len word, 'v) InstanceRef \<Rightarrow> ('w word, 'v) wire list" where
  "pack_reference rt r =
     [W_mask (InstanceRef.valid_fields r), W_event (ready_event r),
      (case manager r of Some m \<Rightarrow> W_did (did rt m) | None \<Rightarrow> W_did 0)]"

fun unpack_reference ::
    "('m, 'e) Runtime \<Rightarrow> ('m, 'w::len word, 'v) InstanceRef \<Rightarrow> ('w word, 'v) wire list
      \<Rightarrow> (('m, 'w word, 'v) InstanceRef \<times> 'e option \<times> ('w word, 'v) wire list) option" where
  "unpack_reference rt r (W_mask fm # W_event ev # W_did d # derez) =
     (let r1 = r\<lparr>InstanceRef.valid_fields := fm, ready_event := ev\<rparr> in
      if d = 0 then Some (r1, None, derez)
      else (case find_or_request_physical_manager rt d of
              (m, ready) \<Rightarrow> Some (r1\<lparr>manager := Some m, local := False\<rparr>, ready, derez)))"
| "unpack_reference rt r derez = None"

subsection \<open>Storage of an instance set\<close>

text \<open>
  An \<^verbatim>\<open>InstanceSet\<close> points either to one \<^verbatim>\<open>CollectableRef\<close> or to an
  \<^verbatim>\<open>InternalSet\<close> holding a vector of references. Both are reference counted and can
  be shared by several sets, so they live in an explicit heap: a map from addresses to
  objects, with a counter for the next fresh address. An address is never used twice.
  Every access through a null pointer, to a deleted object or to an object of the other
  kind is undefined, which is the result \<open>None\<close>.
\<close>

text \<open>
  Modelled from the spec: the two storage classes and their reference counter are declared
  outside the analysed file. The spec calls the container copy-on-write with counted
  references: \<^verbatim>\<open>add_reference\<close> adds one to the count, \<^verbatim>\<open>remove_reference\<close> takes one
  away and tells whether the count reached zero, and removing from a count of zero is
  undefined. A new object starts with the count zero; a new \<^verbatim>\<open>CollectableRef\<close> holds
  the default reference or a copy of the one given, a new \<^verbatim>\<open>InternalSet\<close> a vector of
  default references of the size given or a copy of the vector given.
\<close>

datatype ('m, 'f, 'v) storage =
    CollectableRef "('m, 'f, 'v) InstanceRef" nat
  | InternalSet "('m, 'f, 'v) InstanceRef list" nat

record ('m, 'f, 'v) heap =
  cells :: "nat \<Rightarrow> ('m, 'f, 'v) storage option"
  next_free :: nat

definition empty_heap :: "('m, 'f, 'v) heap" where
  "empty_heap = \<lparr>cells = (\<lambda>p. None), next_free = 1\<rparr>"

definition heap_new ::
    "('m, 'f, 'v) storage \<Rightarrow> ('m, 'f, 'v) heap \<Rightarrow> ('m, 'f, 'v) heap \<times> nat" where
  "heap_new obj h =
     (h\<lparr>cells := (cells h)(next_free h \<mapsto> obj), next_free := Suc (next_free h)\<rparr>,
      next_free h)"

definition the_single ::
    "('m, 'f, 'v) heap \<Rightarrow> nat \<Rightarrow> (('m, 'f, 'v) InstanceRef \<times> nat) option" where
  "the_single h p =
     (case cells h p of Some (CollectableRef r c) \<Rightarrow> Some (r, c) | _ \<Rightarrow> None)"

definition the_multi ::
    "('m, 'f, 'v) heap \<Rightarrow> nat \<Rightarrow> (('m, 'f, 'v) InstanceRef list \<times> nat) option" where
  "the_multi h p =
     (case cells h p of Some (InternalSet v c) \<Rightarrow> Some (v, c) | _ \<Rightarrow> None)"

definition set_cell ::
    "nat \<Rightarrow> ('m, 'f, 'v) storage \<Rightarrow> ('m, 'f, 'v) heap \<Rightarrow> ('m, 'f, 'v) heap" where
  "set_cell p obj h = h\<lparr>cells := (cells h)(p \<mapsto> obj)\<rparr>"

definition delete_cell :: "nat \<Rightarrow> ('m, 'f, 'v) heap \<Rightarrow> ('m, 'f, 'v) heap" where
  "delete_cell p h = h\<lparr>cells := (cells h)(p := None)\<rparr>"

text \<open>
  \<^verbatim>\<open>p->add_reference()\<close>, and the idiom
  \<^verbatim>\<open>if (p->remove_reference()) delete p\<close>, for each kind of object.
\<close>

definition add_reference_single ::
    "nat \<Rightarrow> ('m, 'f, 'v) heap \<Rightarrow> ('m, 'f, 'v) heap option" where
  "add_reference_single p h =
     (case the_single h p of
        None \<Rightarrow> None
      | Some (r, c) \<Rightarrow> Some (set_cell p (CollectableRef r (c + 1)) h))"

definition add_reference_multi ::
    "nat \<Rightarrow> ('m, 'f, 'v) heap \<Rightarrow> ('m, 'f, 'v) heap option" where
  "add_reference_multi p h =
     (case the_multi h p of
        None \<Rightarrow> None
      | Some (v, c) \<Rightarrow> Some (set_cell p (InternalSet v (c + 1)) h))"

definition release_single ::
    "nat \<Rightarrow> ('m, 'f, 'v) heap \<Rightarrow> ('m, 'f, 'v) heap option" where
  "release_single p h =
     (case the_single h p of
        None \<Rightarrow> None
      | Some (r, c) \<Rightarrow>
          if c = 0 then None
          else if c = 1 then Some (delete_cell p h)
          else Some (set_cell p (CollectableRef r (c - 1)) h))"

definition release_multi ::
    "nat \<Rightarrow> ('m, 'f, 'v) heap \<Rightarrow> ('m, 'f, 'v) heap option" where
  "release_multi p h =
     (case the_multi h p of
        None \<Rightarrow> None
      | Some (v, c) \<Rightarrow>
          if c = 0 then None
          else if c = 1 then Some (delete_cell p h)
          else Some (set_cell p (InternalSet v (c - 1)) h))"

subsection \<open>InstanceSet\<close>

text \<open>
  The handle: the flags \<^verbatim>\<open>single\<close> and \<^verbatim>\<open>shared\<close> and the union \<^verbatim>\<open>refs\<close>, whose
  two members \<^verbatim>\<open>refs.single\<close> and \<^verbatim>\<open>refs.multi\<close> are one pointer (\<open>None\<close> when
  null). \<^verbatim>\<open>shared\<close> is mutable in the source, so copying a set also returns the updated
  handle of the set copied from.
\<close>

record InstanceSet =
  single :: bool
  shared :: bool
  refs :: "nat option"

text \<open>\<^verbatim>\<open>InstanceSet::InstanceSet(size_t init_size)\<close>.\<close>

definition InstanceSet_init ::
    "nat \<Rightarrow> ('m, 'w::len word, 'v) heap \<Rightarrow> ('m, 'w word, 'v) heap \<times> InstanceSet" where
  "InstanceSet_init init_size h =
     (if init_size = 0 then (h, \<lparr>single = True, shared = False, refs = None\<rparr>)
      else if init_size = 1 then
        (case heap_new (CollectableRef new_InstanceRef 1) h of
           (h', p) \<Rightarrow> (h', \<lparr>single = True, shared = False, refs = Some p\<rparr>))
      else
        (case heap_new (InternalSet (replicate init_size new_InstanceRef) 1) h of
           (h', p) \<Rightarrow> (h', \<lparr>single = False, shared = False, refs = Some p\<rparr>)))"

text \<open>
  The copy constructor: the result is the heap, the new set and the set copied from.
\<close>

definition InstanceSet_copy ::
    "InstanceSet \<Rightarrow> ('m, 'f, 'v) heap \<Rightarrow> (('m, 'f, 'v) heap \<times> InstanceSet \<times> InstanceSet) option" where
  "InstanceSet_copy rhs h =
     (if single rhs then
        (case refs rhs of
           None \<Rightarrow> Some (h, \<lparr>single = True, shared = False, refs = None\<rparr>, rhs)
         | Some p \<Rightarrow>
             (case add_reference_single p h of
                None \<Rightarrow> None
              | Some h' \<Rightarrow>
                  Some (h', \<lparr>single = True, shared = True, refs = Some p\<rparr>,
                        rhs\<lparr>shared := True\<rparr>)))
      else
        (case refs rhs of
           None \<Rightarrow> None
         | Some p \<Rightarrow>
             (case add_reference_multi p h of
                None \<Rightarrow> None
              | Some h' \<Rightarrow>
                  Some (h', \<lparr>single = False, shared = True, refs = Some p\<rparr>,
                        rhs\<lparr>shared := True\<rparr>))))"

text \<open>\<^verbatim>\<open>InstanceSet::make_copy\<close>.\<close>

definition make_copy ::
    "InstanceSet \<Rightarrow> ('m, 'f, 'v) heap \<Rightarrow> (('m, 'f, 'v) heap \<times> InstanceSet) option" where
  "make_copy s h =
     (if single s then
        (case refs s of
           None \<Rightarrow> Some (h, s\<lparr>shared := False\<rparr>)
         | Some p \<Rightarrow>
             (case the_single h p of
                None \<Rightarrow> None
              | Some (r, c) \<Rightarrow>
                  (case heap_new (CollectableRef r 1) h of
                     (h1, next) \<Rightarrow>
                       (case release_single p h1 of
                          None \<Rightarrow> None
                        | Some h2 \<Rightarrow> Some (h2, s\<lparr>refs := Some next, shared := False\<rparr>)))))
      else
        (case refs s of
           None \<Rightarrow> None
         | Some p \<Rightarrow>
             (case the_multi h p of
                None \<Rightarrow> None
              | Some (v, c) \<Rightarrow>
                  (case heap_new (InternalSet v 1) h of
                     (h1, next) \<Rightarrow>
                       (case release_multi p h1 of
                          None \<Rightarrow> None
                        | Some h2 \<Rightarrow> Some (h2, s\<lparr>refs := Some next, shared := False\<rparr>))))))"

text \<open>
  \<^verbatim>\<open>InstanceSet::operator==\<close>. The loop over the two vectors stops at the first pair of
  different elements.
\<close>

fun vectors_equal ::
    "('m, 'w::len word, 'v) InstanceRef list \<Rightarrow> ('m, 'w word, 'v) InstanceRef list \<Rightarrow> bool" where
  "vectors_equal (x # xs) (y # ys) = (if \<not> InstanceRef_eq x y then False else vectors_equal xs ys)"
| "vectors_equal xs ys = True"

definition InstanceSet_eq ::
    "('m, 'w::len word, 'v) heap \<Rightarrow> InstanceSet \<Rightarrow> InstanceSet \<Rightarrow> bool option" where
  "InstanceSet_eq h lhs rhs =
     (if single lhs \<noteq> single rhs then Some False
      else if single lhs then
        (if refs lhs = refs rhs then Some True
         else if (refs lhs = None \<and> refs rhs \<noteq> None) \<or> (refs lhs \<noteq> None \<and> refs rhs = None)
         then Some False
         else (case (refs lhs, refs rhs) of
                 (Some p, Some q) \<Rightarrow>
                   (case (the_single h p, the_single h q) of
                      (Some (x, c), Some (y, c')) \<Rightarrow> Some (InstanceRef_eq x y)
                    | _ \<Rightarrow> None)
               | _ \<Rightarrow> None))
      else
        (case (refs lhs, refs rhs) of
           (Some p, Some q) \<Rightarrow>
             (case (the_multi h p, the_multi h q) of
                (Some (xs, c), Some (ys, c')) \<Rightarrow>
                  if length xs \<noteq> length ys then Some False else Some (vectors_equal xs ys)
              | _ \<Rightarrow> None)
         | _ \<Rightarrow> None))"

text \<open>
  The non-const \<^verbatim>\<open>InstanceSet::operator[]\<close> returns a reference to an element: the
  address of the object and the position in it. Without the debug assertions a single set
  ignores the index. \<^verbatim>\<open>InstanceRef::operator=\<close> through such a reference overwrites the
  element.
\<close>

definition InstanceSet_index ::
    "nat \<Rightarrow> InstanceSet \<Rightarrow> ('m, 'f, 'v) heap
      \<Rightarrow> (('m, 'f, 'v) heap \<times> InstanceSet \<times> nat \<times> nat) option" where
  "InstanceSet_index i s h =
     (case (if shared s then make_copy s h else Some (h, s)) of
        None \<Rightarrow> None
      | Some (h1, s1) \<Rightarrow>
          (case refs s1 of
             None \<Rightarrow> None
           | Some p \<Rightarrow>
               if single s1 then
                 (case the_single h1 p of None \<Rightarrow> None | Some (r, c) \<Rightarrow> Some (h1, s1, p, 0))
               else
                 (case the_multi h1 p of
                    None \<Rightarrow> None
                  | Some (v, c) \<Rightarrow> if i < length v then Some (h1, s1, p, i) else None)))"

definition assign_through ::
    "nat \<times> nat \<Rightarrow> ('m, 'f, 'v) InstanceRef \<Rightarrow> ('m, 'f, 'v) heap \<Rightarrow> ('m, 'f, 'v) heap option" where
  "assign_through loc r h =
     (case loc of (p, i) \<Rightarrow>
        (case cells h p of
           Some (CollectableRef x c) \<Rightarrow> Some (set_cell p (CollectableRef r c) h)
         | Some (InternalSet v c) \<Rightarrow>
             if i < length v then Some (set_cell p (InternalSet (v[i := r]) c) h) else None
         | None \<Rightarrow> None))"

text \<open>The const \<^verbatim>\<open>operator[]\<close>, \<^verbatim>\<open>size\<close> and \<^verbatim>\<open>empty\<close>.\<close>

definition InstanceSet_at ::
    "nat \<Rightarrow> InstanceSet \<Rightarrow> ('m, 'f, 'v) heap \<Rightarrow> ('m, 'f, 'v) InstanceRef option" where
  "InstanceSet_at i s h =
     (case refs s of
        None \<Rightarrow> None
      | Some p \<Rightarrow>
          if single s then map_option fst (the_single h p)
          else (case the_multi h p of
                  None \<Rightarrow> None
                | Some (v, c) \<Rightarrow> if i < length v then Some (v ! i) else None))"

definition InstanceSet_size :: "InstanceSet \<Rightarrow> ('m, 'f, 'v) heap \<Rightarrow> nat option" where
  "InstanceSet_size s h =
     (if single s then (if refs s = None then Some 0 else Some 1)
      else (case refs s of
              None \<Rightarrow> Some 0
            | Some p \<Rightarrow> map_option (\<lambda>(v, c). length v) (the_multi h p)))"

text \<open>
  What a set shows to its user: its elements, position by position. A single set shows
  the element it points to, or nothing.
\<close>

definition InstanceSet_contents ::
    "InstanceSet \<Rightarrow> ('m, 'f, 'v) heap \<Rightarrow> ('m, 'f, 'v) InstanceRef list option" where
  "InstanceSet_contents s h =
     (if single s then
        (case refs s of None \<Rightarrow> Some [] | Some p \<Rightarrow> map_option (\<lambda>(r, c). [r]) (the_single h p))
      else
        (case refs s of None \<Rightarrow> Some [] | Some p \<Rightarrow> map_option fst (the_multi h p)))"

text \<open>\<^verbatim>\<open>InstanceSet::resize\<close>.\<close>

definition InstanceSet_resize ::
    "nat \<Rightarrow> InstanceSet \<Rightarrow> ('m, 'w::len word, 'v) heap
      \<Rightarrow> (('m, 'w word, 'v) heap \<times> InstanceSet) option" where
  "InstanceSet_resize new_size s h =
     (if single s then
        (if new_size = 0 then
           (case refs s of
              None \<Rightarrow> Some (h, s\<lparr>refs := None, shared := False\<rparr>)
            | Some p \<Rightarrow>
                map_option (\<lambda>h'. (h', s\<lparr>refs := None, shared := False\<rparr>)) (release_single p h))
         else if new_size > 1 then
           (case refs s of
              None \<Rightarrow>
                (case heap_new (InternalSet (replicate new_size new_InstanceRef) 1) h of
                   (h1, next) \<Rightarrow>
                     Some (h1, s\<lparr>refs := Some next, single := False, shared := False\<rparr>))
            | Some p \<Rightarrow>
                (case the_single h p of
                   None \<Rightarrow> None
                 | Some (r, c) \<Rightarrow>
                     (case heap_new (InternalSet ((replicate new_size new_InstanceRef)[0 := r]) 0) h of
                        (h1, next) \<Rightarrow>
                          (case release_single p h1 of
                             None \<Rightarrow> None
                           | Some h2 \<Rightarrow>
                               map_option
                                 (\<lambda>h3. (h3, s\<lparr>refs := Some next, single := False, shared := False\<rparr>))
                                 (add_reference_multi next h2)))))
         else if refs s = None then
           (case heap_new (CollectableRef new_InstanceRef 1) h of
              (h1, next) \<Rightarrow> Some (h1, s\<lparr>refs := Some next, single := True, shared := False\<rparr>))
         else Some (h, s))
      else
        (case refs s of
           None \<Rightarrow> None
         | Some p \<Rightarrow>
             if new_size = 0 then
               map_option (\<lambda>h'. (h', s\<lparr>refs := None, single := True, shared := False\<rparr>))
                 (release_multi p h)
             else if new_size = 1 then
               (case the_multi h p of
                  None \<Rightarrow> None
                | Some (v, c) \<Rightarrow>
                    if v = [] then None
                    else
                      (case heap_new (CollectableRef (v ! 0) 0) h of
                         (h1, next) \<Rightarrow>
                           (case release_multi p h1 of
                              None \<Rightarrow> None
                            | Some h2 \<Rightarrow>
                                map_option
                                  (\<lambda>h3. (h3, s\<lparr>refs := Some next, single := True, shared := False\<rparr>))
                                  (add_reference_single next h2))))
             else
               (case the_multi h p of
                  None \<Rightarrow> None
                | Some (v, c) \<Rightarrow>
                    if length v \<noteq> new_size then
                      (if shared s then
                         (case heap_new
                                 (InternalSet (take new_size v @
                                    replicate (new_size - length v) new_InstanceRef) 0) h of
                            (h1, next) \<Rightarrow>
                              (case release_multi p h1 of
                                 None \<Rightarrow> None
                               | Some h2 \<Rightarrow>
                                   map_option
                                     (\<lambda>h3. (h3, s\<lparr>refs := Some next, shared := False\<rparr>))
                                     (add_reference_multi next h2)))
                       else
                         Some (set_cell p
                                 (InternalSet (take new_size v @
                                    replicate (new_size - length v) new_InstanceRef) c) h, s))
                    else Some (h, s))))"

text \<open>\<^verbatim>\<open>InstanceSet::clear\<close>.\<close>

definition InstanceSet_clear ::
    "InstanceSet \<Rightarrow> ('m, 'f, 'v) heap \<Rightarrow> (('m, 'f, 'v) heap \<times> InstanceSet) option" where
  "InstanceSet_clear s h =
     (if single s then
        (case refs s of
           None \<Rightarrow> Some (h, s\<lparr>refs := None, shared := False\<rparr>)
         | Some p \<Rightarrow>
             map_option (\<lambda>h'. (h', s\<lparr>refs := None, shared := False\<rparr>)) (release_single p h))
      else
        (case refs s of
           None \<Rightarrow> None
         | Some p \<Rightarrow>
             (case the_multi h p of
                None \<Rightarrow> None
              | Some (v, c) \<Rightarrow>
                  if shared s then
                    (if c = 0 then None
                     else if c = 1 then Some (set_cell p (InternalSet [] 1) h, s\<lparr>shared := False\<rparr>)
                     else Some (set_cell p (InternalSet v (c - 1)) h,
                                s\<lparr>refs := None, single := True, shared := False\<rparr>))
                  else Some (set_cell p (InternalSet [] c) h, s\<lparr>shared := False\<rparr>))))"

text \<open>\<^verbatim>\<open>InstanceSet::add_instance\<close>.\<close>

definition InstanceSet_add_instance ::
    "('m, 'w::len word, 'v) InstanceRef \<Rightarrow> InstanceSet \<Rightarrow> ('m, 'w word, 'v) heap
      \<Rightarrow> (('m, 'w word, 'v) heap \<times> InstanceSet) option" where
  "InstanceSet_add_instance r s h =
     (if single s then
        (case refs s of
           Some p \<Rightarrow>
             (case the_single h p of
                None \<Rightarrow> None
              | Some (x, c) \<Rightarrow>
                  (case heap_new (InternalSet [x, r] 0) h of
                     (h1, next) \<Rightarrow>
                       (case release_single p h1 of
                          None \<Rightarrow> None
                        | Some h2 \<Rightarrow>
                            map_option
                              (\<lambda>h3. (h3, s\<lparr>refs := Some next, single := False, shared := False\<rparr>))
                              (add_reference_multi next h2))))
         | None \<Rightarrow>
             (case heap_new (CollectableRef r 1) h of
                (h1, next) \<Rightarrow> Some (h1, s\<lparr>refs := Some next\<rparr>)))
      else
        (case (if shared s then make_copy s h else Some (h, s)) of
           None \<Rightarrow> None
         | Some (h1, s1) \<Rightarrow>
             (case refs s1 of
                None \<Rightarrow> None
              | Some p \<Rightarrow>
                  (case the_multi h1 p of
                     None \<Rightarrow> None
                   | Some (v, c) \<Rightarrow> Some (set_cell p (InternalSet (v @ [r]) c) h1, s1)))))"

text \<open>
  \<^verbatim>\<open>InstanceSet::operator=\<close>, for two different sets: the result is the heap, the set
  assigned to and the set assigned from.
\<close>

definition InstanceSet_assign ::
    "InstanceSet \<Rightarrow> InstanceSet \<Rightarrow> ('m, 'f, 'v) heap
      \<Rightarrow> (('m, 'f, 'v) heap \<times> InstanceSet \<times> InstanceSet) option" where
  "InstanceSet_assign lhs rhs h =
     (case (if single lhs
            then (case refs lhs of None \<Rightarrow> Some h | Some p \<Rightarrow> release_single p h)
            else (case refs lhs of None \<Rightarrow> None | Some p \<Rightarrow> release_multi p h)) of
        None \<Rightarrow> None
      | Some h1 \<Rightarrow>
          if single rhs then
            (case refs rhs of
               None \<Rightarrow> Some (h1, lhs\<lparr>single := True, refs := None, shared := False\<rparr>, rhs)
             | Some p \<Rightarrow>
                 map_option
                   (\<lambda>h2. (h2, lhs\<lparr>single := True, refs := Some p, shared := True\<rparr>,
                          rhs\<lparr>shared := True\<rparr>))
                   (add_reference_single p h1))
          else
            (case refs rhs of
               None \<Rightarrow> None
             | Some p \<Rightarrow>
                 map_option
                   (\<lambda>h2. (h2, lhs\<lparr>single := False, refs := Some p, shared := True\<rparr>,
                          rhs\<lparr>shared := True\<rparr>))
                   (add_reference_multi p h1)))"

text \<open>\<^verbatim>\<open>InstanceSet::pack_references\<close>: the values it appends to the serializer.\<close>

definition pack_references ::
    "('m, 'e) Runtime \<Rightarrow> InstanceSet \<Rightarrow> ('m, 'w::len word, 'v) heap
      \<Rightarrow> ('w word, 'v) wire list option" where
  "pack_references rt s h =
     (if single s then
        (case refs s of
           None \<Rightarrow> Some [W_size 0]
         | Some p \<Rightarrow>
             (case the_single h p of
                None \<Rightarrow> None
              | Some (r, c) \<Rightarrow> Some (W_size 1 # pack_reference rt r)))
      else
        (case refs s of
           None \<Rightarrow> None
         | Some p \<Rightarrow>
             (case the_multi h p of
                None \<Rightarrow> None
              | Some (v, c) \<Rightarrow> Some (W_size (length v) # concat (map (pack_reference rt) v)))))"

text \<open>
  The loop of \<^verbatim>\<open>unpack_references\<close> over the vector: every element is unpacked in
  place, in order, and the events that exist are collected.
\<close>

fun unpack_vector ::
    "('m, 'e) Runtime \<Rightarrow> ('m, 'w::len word, 'v) InstanceRef list \<Rightarrow> ('w word, 'v) wire list
      \<Rightarrow> (('m, 'w word, 'v) InstanceRef list \<times> 'e list \<times> ('w word, 'v) wire list) option" where
  "unpack_vector rt [] derez = Some ([], [], derez)"
| "unpack_vector rt (r # rs) derez =
     (case unpack_reference rt r derez of
        None \<Rightarrow> None
      | Some (r', ready, derez') \<Rightarrow>
          (case unpack_vector rt rs derez' of
             None \<Rightarrow> None
           | Some (rs', events, derez'') \<Rightarrow>
               Some (r' # rs', (case ready of None \<Rightarrow> [] | Some e \<Rightarrow> [e]) @ events, derez'')))"

text \<open>
  \<^verbatim>\<open>InstanceSet::unpack_references\<close>: the result is the heap, the set, the events
  inserted into \<^verbatim>\<open>ready_events\<close> and the rest of the buffer. With no reference to
  unpack, a set in multi mode only sets \<^verbatim>\<open>single\<close> and keeps the pointer it had.
\<close>

definition unpack_references ::
    "('m, 'e) Runtime \<Rightarrow> InstanceSet \<Rightarrow> ('m, 'w::len word, 'v) heap \<Rightarrow> ('w word, 'v) wire list
      \<Rightarrow> (('m, 'w word, 'v) heap \<times> InstanceSet \<times> 'e list \<times> ('w word, 'v) wire list) option" where
  "unpack_references rt s h derez =
     (case derez of
        W_size num_refs # derez1 \<Rightarrow>
          if num_refs = 0 then
            (if single s then
               (case refs s of
                  None \<Rightarrow> Some (h, s\<lparr>refs := None, shared := False\<rparr>, [], derez1)
                | Some p \<Rightarrow>
                    map_option (\<lambda>h'. (h', s\<lparr>refs := None, shared := False\<rparr>, [], derez1))
                      (release_single p h))
             else
               (case refs s of
                  None \<Rightarrow> None
                | Some p \<Rightarrow>
                    map_option (\<lambda>h'. (h', s\<lparr>single := True, shared := False\<rparr>, [], derez1))
                      (release_multi p h)))
          else if num_refs = 1 then
            (case (if \<not> single s
                   then (case refs s of
                           None \<Rightarrow> None
                         | Some p \<Rightarrow>
                             map_option (\<lambda>h'. (h', s\<lparr>refs := None, single := True\<rparr>))
                               (release_multi p h))
                   else Some (h, s)) of
               None \<Rightarrow> None
             | Some (h1, s1) \<Rightarrow>
                 (case (case refs s1 of
                          None \<Rightarrow>
                            (case heap_new (CollectableRef new_InstanceRef 1) h1 of
                               (h2, next) \<Rightarrow> (h2, s1\<lparr>refs := Some next\<rparr>, next))
                        | Some p \<Rightarrow> (h1, s1, p)) of
                    (h2, s2, p) \<Rightarrow>
                      (case the_single h2 p of
                         None \<Rightarrow> None
                       | Some (r, c) \<Rightarrow>
                           (case unpack_reference rt r derez1 of
                              None \<Rightarrow> None
                            | Some (r', ready, derez2) \<Rightarrow>
                                Some (set_cell p (CollectableRef r' c) h2,
                                      s2\<lparr>shared := False\<rparr>,
                                      (case ready of None \<Rightarrow> [] | Some e \<Rightarrow> [e]),
                                      derez2)))))
          else
            (case (if single s
                   then (case (case refs s of None \<Rightarrow> Some h | Some p \<Rightarrow> release_single p h) of
                           None \<Rightarrow> None
                         | Some h1 \<Rightarrow>
                             (case heap_new (InternalSet (replicate num_refs new_InstanceRef) 1) h1 of
                                (h2, next) \<Rightarrow> Some (h2, s\<lparr>refs := Some next, single := False\<rparr>, next)))
                   else (case refs s of
                           None \<Rightarrow> None
                         | Some p \<Rightarrow>
                             (case the_multi h p of
                                None \<Rightarrow> None
                              | Some (v, c) \<Rightarrow>
                                  Some (set_cell p
                                          (InternalSet (take num_refs v @
                                             replicate (num_refs - length v) new_InstanceRef) c) h,
                                        s, p)))) of
               None \<Rightarrow> None
             | Some (h2, s2, p) \<Rightarrow>
                 (case the_multi h2 p of
                    None \<Rightarrow> None
                  | Some (v, c) \<Rightarrow>
                      (case unpack_vector rt v derez1 of
                         None \<Rightarrow> None
                       | Some (v', events, derez2) \<Rightarrow>
                           Some (set_cell p (InternalSet v' c) h2, s2\<lparr>shared := False\<rparr>,
                                 events, derez2))))
      | _ \<Rightarrow> None)"

subsection \<open>Well-formed heaps and sets\<close>

text \<open>
  The addresses from \<^verbatim>\<open>next_free\<close> on are free. A set is valid in a heap when its
  pointer and its mode agree with the object it points to and the object is counted at
  least once; only a single set may hold the null pointer.
\<close>

definition heap_ok :: "('m, 'f, 'v) heap \<Rightarrow> bool" where
  "heap_ok h = (\<forall>p. next_free h \<le> p \<longrightarrow> cells h p = None)"

definition valid_set :: "('m, 'f, 'v) heap \<Rightarrow> InstanceSet \<Rightarrow> bool" where
  "valid_set h s =
     (case refs s of
        None \<Rightarrow> single s
      | Some p \<Rightarrow>
          if single s then (\<exists>r c. cells h p = Some (CollectableRef r c) \<and> 0 < c)
          else (\<exists>v c. cells h p = Some (InternalSet v c) \<and> 0 < c))"

text \<open>
  The runtime resolves the managers of a list of references: each of them has a distributed
  id other than \<open>0\<close>, and looking that id up gives the manager back.
\<close>

definition managers_resolved ::
    "('m, 'e) Runtime \<Rightarrow> ('m, 'f, 'v) InstanceRef list \<Rightarrow> bool" where
  "managers_resolved rt rs =
     (\<forall>r\<in>set rs. \<forall>m. manager r = Some m \<longrightarrow>
        did rt m \<noteq> 0 \<and> fst (find_or_request_physical_manager rt (did rt m)) = m)"

text \<open>
  The destination holds no manager at a position where the source has none:
  \<^verbatim>\<open>unpack_reference\<close> returns early for the distributed id \<open>0\<close> and would keep it.
\<close>

definition no_stale_manager ::
    "('m, 'f, 'v) InstanceRef list \<Rightarrow> ('m, 'f, 'v) InstanceRef list \<Rightarrow> bool" where
  "no_stale_manager ds ss =
     (\<forall>i. i < length ds \<and> i < length ss \<and> manager (ss ! i) = None \<longrightarrow> manager (ds ! i) = None)"

text \<open>A runtime for the examples: manager \<open>m\<close> has the distributed id \<open>m\<close>.\<close>

definition example_runtime :: "(nat, nat) Runtime" where
  "example_runtime =
     \<lparr>did = (\<lambda>m. of_nat m), find_or_request_physical_manager = (\<lambda>d. (unat d, None))\<rparr>"

section \<open>Properties of restrictions and acquisitions\<close>

subsection \<open>What an acquire records\<close>

lemma Acquisitions_acquired_append:
  "Acquisitions_acquired (xs @ ys) = Acquisitions_acquired xs OR Acquisitions_acquired ys"
  by (induction xs) (simp_all add: ac_simps)

text \<open>
  Whenever an acquire succeeds, the fields it took out of the mask it was given are
  exactly the fields added to the acquisitions of the tree. An acquisition either leaves
  the mask alone or empties it.
\<close>

lemma add_acquisition_acquired:
  fixes r :: "('n, 'm, 'w::len) restriction"
    and as :: "('n, 'm, 'w) acquisition list"
    and a :: "('n, 'm, 'w) acquisition"
    and rs :: "('n, 'm, 'w) restriction list"
  shows
  "(case Restriction_add_acquisition F r node rem of Inl e \<Rightarrow> True
    | Inr (r', rem') \<Rightarrow>
      Restriction_acquired r' = Restriction_acquired r OR (rem AND NOT rem') \<and>
      rem' AND NOT rem = 0)"
  and
  "(case Restriction_add_acquisition_loop F as node ov of Inl e \<Rightarrow> True
    | Inr (as', ov', ret) \<Rightarrow>
      Acquisitions_acquired as' = Acquisitions_acquired as OR (ov AND NOT ov') \<and>
      (if ret then ov' = 0 else ov' = ov))"
  and
  "(case Acquisition_add_acquisition F a node rem1 of Inl e \<Rightarrow> True
    | Inr (a', rem1') \<Rightarrow>
      Acquisition_acquired a' = Acquisition_acquired a OR (rem1 AND NOT rem1') \<and>
      (rem1' = 0 \<or> rem1' = rem1))"
  and
  "(case Acquisition_add_acquisition_loop F rs node rem2 of Inl e \<Rightarrow> True
    | Inr (rs', rem2', ret) \<Rightarrow>
      Restrictions_acquired rs' = Restrictions_acquired rs OR (rem2 AND NOT rem2') \<and>
      rem2' AND NOT rem2 = 0 \<and> (ret \<longrightarrow> rem2' = 0))"
proof (induction F r node rem and F as node ov and F a node rem1 and F rs node rem2
       rule: Restriction_add_acquisition_Restriction_add_acquisition_loop_Acquisition_add_acquisition_Acquisition_add_acquisition_loop.induct)
  case (1 F ln rf insts acqs node remaining_fields)
  then show ?case
    by (auto simp: Let_def Acquisitions_acquired_append split: if_splits sum.splits prod.splits)
       (rule bit_word_eqI; auto simp: bit_simps)+
next
  case (2 F node overlap)
  then show ?case by simp
next
  case (3 F a as node overlap)
  then show ?case 
    by (auto simp: Let_def Acquisitions_acquired_append split: if_splits sum.splits prod.splits)
       (rule bit_word_eqI; auto simp: bit_simps)+
next
  case (4 F ln af rs node remaining_fields)
  then show ?case
    by (auto simp: Let_def Acquisitions_acquired_append split: if_splits sum.splits prod.splits)
       (rule bit_word_eqI; auto simp: bit_simps)+
next
  case (5 F node remaining_fields)
  then show ?case by simp
next
  case (6 F r rs node remaining_fields)
  show ?case
  proof (cases "Restriction_add_acquisition F r node remaining_fields")
    case (Inl e)
    then show ?thesis by simp
  next
    case (Inr p)
    obtain r' rem' where p: "p = (r', rem')" by (cases p)
    have h1: "Restriction_acquired r' = Restriction_acquired r OR (remaining_fields AND NOT rem')"
      and s1: "rem' AND NOT remaining_fields = 0"
      using "6.IH"(1) Inr p by auto
    show ?thesis
    proof (cases "rem' = 0")
      case True
      then show ?thesis using Inr p h1 by (simp add: ac_simps)
    next
      case False
      show ?thesis
      proof (cases "Acquisition_add_acquisition_loop F rs node rem'")
        case (Inl e)
        then show ?thesis using Inr p False by simp
      next
        case (Inr q)
        obtain rs' rem'' ret where q: "q = (rs', rem'', ret)" by (cases q)
        have h2: "Restrictions_acquired rs' = Restrictions_acquired rs OR (rem' AND NOT rem'')"
          and s2: "rem'' AND NOT rem' = 0" and r2: "ret \<longrightarrow> rem'' = 0"
          using "6.IH"(2) [OF \<open>Restriction_add_acquisition F r node remaining_fields = Inr p\<close> p [symmetric] False] Inr q
          by auto
        have e: "(Restriction_acquired r OR (remaining_fields AND NOT rem')) OR
                 (Restrictions_acquired rs OR (rem' AND NOT rem'')) =
                 (Restriction_acquired r OR Restrictions_acquired rs) OR (remaining_fields AND NOT rem'')"
          using s1 s2 by (auto simp: bit_eq_iff bit_simps)
        have t: "rem'' AND NOT remaining_fields = 0"
          using s1 s2 by (auto simp: bit_eq_iff bit_simps)
        show ?thesis
          using \<open>Restriction_add_acquisition F r node remaining_fields = Inr p\<close> p False Inr q h1 h2 r2 e t
          by simp
      qed
    qed
  qed
qed


text \<open>
  The same for the fields held and for the acquisitions themselves: a successful acquire
  makes the fields it took held, keeps every acquisition that was there with its node and
  its fields, and adds acquisitions at the acquire node, none of them empty, whose fields
  together are the fields it took.
\<close>

lemma Acquisitions_held_append:
  "Acquisitions_held (xs @ ys) = Acquisitions_held xs OR Acquisitions_held ys"
  by (induction xs) (simp_all add: ac_simps)

lemma Acquisitions_records_append:
  "Acquisitions_records (xs @ ys) = Acquisitions_records xs @ Acquisitions_records ys"
  by (induction xs) simp_all

lemma fields_of_append: "fields_of (xs @ ys) = fields_of xs OR fields_of ys"
  by (induction xs) (simp_all add: ac_simps)

lemma add_acquisition_held:
  fixes r :: "('n, 'm, 'w::len) restriction"
    and as :: "('n, 'm, 'w) acquisition list"
    and a :: "('n, 'm, 'w) acquisition"
    and rs :: "('n, 'm, 'w) restriction list"
  shows
  "(case Restriction_add_acquisition F r node rem of Inl e \<Rightarrow> True
    | Inr (r', rem') \<Rightarrow>
      Restriction_held r' = Restriction_held r OR (rem AND NOT rem') \<and>
      restricted_fields r' = restricted_fields r)"
  and
  "(case Restriction_add_acquisition_loop F as node ov of Inl e \<Rightarrow> True
    | Inr (as', ov', ret) \<Rightarrow>
      Acquisitions_held as' = Acquisitions_held as OR (ov AND NOT ov'))"
  and
  "(case Acquisition_add_acquisition F a node rem1 of Inl e \<Rightarrow> True
    | Inr (a', rem1') \<Rightarrow>
      Acquisition_held a' = Acquisition_held a OR (rem1 AND NOT rem1'))"
  and
  "(case Acquisition_add_acquisition_loop F rs node rem2 of Inl e \<Rightarrow> True
    | Inr (rs', rem2', ret) \<Rightarrow>
      Restrictions_held rs' = Restrictions_held rs OR (rem2 AND NOT rem2') \<and>
      Restrictions_restricted rs' = Restrictions_restricted rs)"
proof (induction F r node rem and F as node ov and F a node rem1 and F rs node rem2
       rule: Restriction_add_acquisition_Restriction_add_acquisition_loop_Acquisition_add_acquisition_Acquisition_add_acquisition_loop.induct)
  case (1 F ln rf insts acqs node remaining_fields)
  show ?case
    using 1 add_acquisition_acquired(2) [where F = F and as = acqs and node = node and ov = "rf AND remaining_fields"]
    by (auto simp: Let_def Acquisitions_held_append split: if_splits sum.splits prod.splits)
       (rule bit_word_eqI; auto simp: bit_simps)+
next
  case (2 F node overlap)
  then show ?case by simp
next
  case (3 F a as node overlap)
  show ?case
    using 3 add_acquisition_acquired(3) [where F = F and a = a and node = node and ?rem1.0 = overlap]
    by (auto simp: Let_def split: if_splits sum.splits prod.splits)
       (rule bit_word_eqI; auto simp: bit_simps)+
next
  case (4 F ln af rs node remaining_fields)
  show ?case
    using 4 add_acquisition_acquired(4) [where F = F and rs = rs and node = node and ?rem2.0 = remaining_fields]
    by (auto simp: Let_def split: if_splits sum.splits prod.splits)
       (rule bit_word_eqI; auto simp: bit_simps)+
next
  case (5 F node remaining_fields)
  then show ?case by simp
next
  case (6 F r rs node remaining_fields)
  show ?case
  proof (cases "Restriction_add_acquisition F r node remaining_fields")
    case (Inl e)
    then show ?thesis by simp
  next
    case (Inr p)
    obtain r' rem' where p: "p = (r', rem')" by (cases p)
    have h1: "Restriction_held r' = Restriction_held r OR (remaining_fields AND NOT rem')"
      and f1: "restricted_fields r' = restricted_fields r"
      using "6.IH"(1) Inr p by auto
    have s1: "rem' AND NOT remaining_fields = 0"
      using add_acquisition_acquired(1) [where F = F and r = r and node = node and rem = remaining_fields] Inr p by auto
    show ?thesis
    proof (cases "rem' = 0")
      case True
      then show ?thesis using Inr p h1 f1 by (simp add: ac_simps)
    next
      case False
      show ?thesis
      proof (cases "Acquisition_add_acquisition_loop F rs node rem'")
        case (Inl e)
        then show ?thesis using Inr p False by simp
      next
        case (Inr q)
        obtain rs' rem'' ret where q: "q = (rs', rem'', ret)" by (cases q)
        have h2: "Restrictions_held rs' = Restrictions_held rs OR (rem' AND NOT rem'')"
          and f2: "Restrictions_restricted rs' = Restrictions_restricted rs"
          using "6.IH"(2) [OF \<open>Restriction_add_acquisition F r node remaining_fields = Inr p\<close> p [symmetric] False] Inr q
          by auto
        have s2: "rem'' AND NOT rem' = 0"
          using add_acquisition_acquired(4) [where F = F and rs = rs and node = node and ?rem2.0 = rem'] Inr q by auto
        have e: "(Restriction_held r OR (remaining_fields AND NOT rem')) OR
                 (Restrictions_held rs OR (rem' AND NOT rem'')) =
                 (Restriction_held r OR Restrictions_held rs) OR (remaining_fields AND NOT rem'')"
          using s1 s2 by (auto simp: bit_eq_iff bit_simps)
        show ?thesis
          using \<open>Restriction_add_acquisition F r node remaining_fields = Inr p\<close> p False Inr q h1 h2 f1 f2 e
          by simp
      qed
    qed
  qed
qed


lemma add_acquisition_records:
  fixes r :: "('n, 'm, 'w::len) restriction"
    and as :: "('n, 'm, 'w) acquisition list"
    and a :: "('n, 'm, 'w) acquisition"
    and rs :: "('n, 'm, 'w) restriction list"
  shows
  "(case Restriction_add_acquisition F r node rem of Inl e \<Rightarrow> True
    | Inr (r', rem') \<Rightarrow>
      (\<exists>news. mset (Restriction_records r') = mset (Restriction_records r) + mset news \<and>
         (\<forall>p\<in>set news. fst p = node \<and> snd p \<noteq> 0) \<and> fields_of news = rem AND NOT rem'))"
  and
  "(case Restriction_add_acquisition_loop F as node ov of Inl e \<Rightarrow> True
    | Inr (as', ov', ret) \<Rightarrow>
      (\<exists>news. mset (Acquisitions_records as') = mset (Acquisitions_records as) + mset news \<and>
         (\<forall>p\<in>set news. fst p = node \<and> snd p \<noteq> 0) \<and> fields_of news = ov AND NOT ov'))"
  and
  "(case Acquisition_add_acquisition F a node rem1 of Inl e \<Rightarrow> True
    | Inr (a', rem1') \<Rightarrow>
      (\<exists>news. mset (Acquisition_records a') = mset (Acquisition_records a) + mset news \<and>
         (\<forall>p\<in>set news. fst p = node \<and> snd p \<noteq> 0) \<and> fields_of news = rem1 AND NOT rem1'))"
  and
  "(case Acquisition_add_acquisition_loop F rs node rem2 of Inl e \<Rightarrow> True
    | Inr (rs', rem2', ret) \<Rightarrow>
      (\<exists>news. mset (Restrictions_records rs') = mset (Restrictions_records rs) + mset news \<and>
         (\<forall>p\<in>set news. fst p = node \<and> snd p \<noteq> 0) \<and> fields_of news = rem2 AND NOT rem2'))"
proof (induction F r node rem and F as node ov and F a node rem1 and F rs node rem2
       rule: Restriction_add_acquisition_Restriction_add_acquisition_loop_Acquisition_add_acquisition_Acquisition_add_acquisition_loop.induct)
  case (1 F ln rf insts acqs node remaining_fields)
  let ?ov = "rf AND remaining_fields"
  let ?r = "Restriction ln rf insts acqs"
  have same: "\<exists>news. mset (Restriction_records ?r) = mset (Restriction_records ?r) + mset news \<and>
         (\<forall>p\<in>set news. fst p = node \<and> snd p \<noteq> 0) \<and>
         fields_of news = remaining_fields AND NOT remaining_fields"
    by (rule exI [of _ "[]"]) simp
  show ?case
  proof (cases "?ov = 0 \<or> \<not> dominates F ln node")
    case True
    then show ?thesis using same by (auto simp: Let_def)
  next
    case False
    then have ov: "?ov \<noteq> 0" and d: "dominates F ln node" by auto
    have t: "remaining_fields AND NOT (remaining_fields AND NOT ?ov) = ?ov"
      by (rule bit_word_eqI) (auto simp: bit_simps)
    show ?thesis
    proof (cases "Restriction_add_acquisition_loop F acqs node ?ov")
      case (Inl e)
      then show ?thesis using ov d by (simp add: Let_def)
    next
      case (Inr q)
      obtain as' ov' ret where q: "q = (as', ov', ret)" by (cases q)
      obtain news where n: "mset (Acquisitions_records as') = mset (Acquisitions_records acqs) + mset news"
          "\<forall>p\<in>set news. fst p = node \<and> snd p \<noteq> 0" "fields_of news = ?ov AND NOT ov'"
        using "1.IH" [OF refl ov] d Inr q by auto
      have l: "if ret then ov' = 0 else ov' = ?ov"
        using add_acquisition_acquired(2) [where F = F and as = acqs and node = node and ov = "?ov"] Inr q
        by auto
      show ?thesis
      proof (cases ret)
        case True
        then have "fields_of news = ?ov" using n(3) l by simp
        then show ?thesis
          using True Inr q ov d n(1,2) t by (auto simp: Let_def)
      next
        case False
        then have o: "ov' = ?ov" using l by simp
        have "mset (Acquisitions_records (as' @ [Acquisition node ov' []])) =
                mset (Acquisitions_records acqs) + mset (news @ [(node, ov')])"
          using n(1) by (simp add: Acquisitions_records_append)
        moreover have "\<forall>p\<in>set (news @ [(node, ov')]). fst p = node \<and> snd p \<noteq> 0"
          using n(2) o ov by simp
        moreover have "fields_of (news @ [(node, ov')]) = ?ov"
          using n(3) o by (simp add: fields_of_append)
        ultimately have "\<exists>n. mset (Acquisitions_records (as' @ [Acquisition node ov' []])) =
                mset (Acquisitions_records acqs) + mset n \<and>
                (\<forall>p\<in>set n. fst p = node \<and> snd p \<noteq> 0) \<and> fields_of n = ?ov"
          by blast
        then show ?thesis
          using False Inr q ov d t by (simp add: Let_def)
      qed
    qed
  qed
next
  case (2 F node overlap)
  show ?case by simp
next
  case (3 F a as node overlap)
  show ?case
  proof (cases "Acquisition_add_acquisition F a node overlap")
    case (Inl e)
    then show ?thesis by simp
  next
    case (Inr p)
    obtain a' ov' where p: "p = (a', ov')" by (cases p)
    obtain n1 where n1: "mset (Acquisition_records a') = mset (Acquisition_records a) + mset n1"
        "\<forall>p\<in>set n1. fst p = node \<and> snd p \<noteq> 0" "fields_of n1 = overlap AND NOT ov'"
      using "3.IH"(1) Inr p by auto
    have l: "ov' = 0 \<or> ov' = overlap"
      using add_acquisition_acquired(3) [where F = F and a = a and node = node and ?rem1.0 = overlap] Inr p
      by auto
    show ?thesis
    proof (cases "ov' = 0")
      case True
      then show ?thesis using Inr p n1 by auto
    next
      case False
      then have o: "ov' = overlap" using l by simp
      show ?thesis
      proof (cases "Restriction_add_acquisition_loop F as node ov'")
        case (Inl e)
        then show ?thesis using Inr p False by simp
      next
        case (Inr q)
        obtain as' ov'' ret where q: "q = (as', ov'', ret)" by (cases q)
        obtain n2 where n2: "mset (Acquisitions_records as') = mset (Acquisitions_records as) + mset n2"
            "\<forall>p\<in>set n2. fst p = node \<and> snd p \<noteq> 0" "fields_of n2 = ov' AND NOT ov''"
          using "3.IH"(2) [OF \<open>Acquisition_add_acquisition F a node overlap = Inr p\<close> p [symmetric] False] Inr q
          by auto
        have "mset (Acquisitions_records (a' # as')) =
                mset (Acquisitions_records (a # as)) + mset (n1 @ n2)"
          using n1(1) n2(1) by simp
        moreover have "\<forall>p\<in>set (n1 @ n2). fst p = node \<and> snd p \<noteq> 0"
          using n1(2) n2(2) by auto
        moreover have "fields_of (n1 @ n2) = overlap AND NOT ov''"
          using n1(3) n2(3) o by (simp add: fields_of_append)
        ultimately have "\<exists>n. mset (Acquisitions_records (a' # as')) =
                mset (Acquisitions_records (a # as)) + mset n \<and>
                (\<forall>p\<in>set n. fst p = node \<and> snd p \<noteq> 0) \<and> fields_of n = overlap AND NOT ov''"
          by blast
        then show ?thesis
          using \<open>Acquisition_add_acquisition F a node overlap = Inr p\<close> p False Inr q
          by simp
      qed
    qed
  qed
next
  case (4 F ln af rs node remaining_fields)
  let ?a = "Acquisition ln af rs"
  have same: "\<exists>news. mset (Acquisition_records ?a) = mset (Acquisition_records ?a) + mset news \<and>
         (\<forall>p\<in>set news. fst p = node \<and> snd p \<noteq> 0) \<and>
         fields_of news = remaining_fields AND NOT remaining_fields"
    by (rule exI [of _ "[]"]) simp
  show ?case
  proof (cases "af AND remaining_fields = 0 \<or> \<not> intersects_with F ln node")
    case True
    then show ?thesis using same by auto
  next
    case False
    then have c: "af AND remaining_fields \<noteq> 0" "intersects_with F ln node" by auto
    show ?thesis
    proof (cases "Acquisition_add_acquisition_loop F rs node remaining_fields")
      case (Inl e)
      then show ?thesis using c by simp
    next
      case (Inr q)
      obtain rs' rem' ret where q: "q = (rs', rem', ret)" by (cases q)
      obtain news where n: "mset (Restrictions_records rs') = mset (Restrictions_records rs) + mset news"
          "\<forall>p\<in>set news. fst p = node \<and> snd p \<noteq> 0" "fields_of news = remaining_fields AND NOT rem'"
        using "4.IH" c Inr q by auto
      show ?thesis using c Inr q n by auto
    qed
  qed
next
  case (5 F node remaining_fields)
  show ?case by simp
next
  case (6 F r rs node remaining_fields)
  show ?case
  proof (cases "Restriction_add_acquisition F r node remaining_fields")
    case (Inl e)
    then show ?thesis by simp
  next
    case (Inr p)
    obtain r' rem' where p: "p = (r', rem')" by (cases p)
    obtain n1 where n1: "mset (Restriction_records r') = mset (Restriction_records r) + mset n1"
        "\<forall>p\<in>set n1. fst p = node \<and> snd p \<noteq> 0" "fields_of n1 = remaining_fields AND NOT rem'"
      using "6.IH"(1) Inr p by auto
    have s1: "rem' AND NOT remaining_fields = 0"
      using add_acquisition_acquired(1) [where F = F and r = r and node = node and rem = remaining_fields] Inr p
      by auto
    show ?thesis
    proof (cases "rem' = 0")
      case True
      then show ?thesis using Inr p n1 by auto
    next
      case False
      show ?thesis
      proof (cases "Acquisition_add_acquisition_loop F rs node rem'")
        case (Inl e)
        then show ?thesis using Inr p False by simp
      next
        case (Inr q)
        obtain rs' rem'' ret where q: "q = (rs', rem'', ret)" by (cases q)
        obtain n2 where n2: "mset (Restrictions_records rs') = mset (Restrictions_records rs) + mset n2"
            "\<forall>p\<in>set n2. fst p = node \<and> snd p \<noteq> 0" "fields_of n2 = rem' AND NOT rem''"
          using "6.IH"(2) [OF \<open>Restriction_add_acquisition F r node remaining_fields = Inr p\<close> p [symmetric] False] Inr q
          by auto
        have s2: "rem'' AND NOT rem' = 0"
          using add_acquisition_acquired(4) [where F = F and rs = rs and node = node and ?rem2.0 = rem'] Inr q
          by auto
        have "mset (Restrictions_records (r' # rs')) =
                mset (Restrictions_records (r # rs)) + mset (n1 @ n2)"
          using n1(1) n2(1) by simp
        moreover have "\<forall>p\<in>set (n1 @ n2). fst p = node \<and> snd p \<noteq> 0"
          using n1(2) n2(2) by auto
        moreover have "fields_of (n1 @ n2) = remaining_fields AND NOT rem''"
          using n1(3) n2(3) s1 s2
          by (simp add: fields_of_append) (rule bit_word_eqI; auto simp: bit_simps bit_eq_iff)
        ultimately have "\<exists>n. mset (Restrictions_records (r' # rs')) =
                mset (Restrictions_records (r # rs)) + mset n \<and>
                (\<forall>p\<in>set n. fst p = node \<and> snd p \<noteq> 0) \<and>
                fields_of n = remaining_fields AND NOT rem''"
          by blast
        then show ?thesis
          using \<open>Restriction_add_acquisition F r node remaining_fields = Inr p\<close> p False Inr q
          by simp
      qed
    qed
  qed
qed

text \<open>
  Children that let the mask pass: an acquisition whose fields are disjoint from it or
  whose node does not intersect the acquire node, and a restriction whose fields are
  disjoint from it or whose node neither dominates nor intersects the acquire node. The
  loops skip them, so what a call does with one child among such siblings does not depend
  on the order of the children.
\<close>

lemma Restriction_add_acquisition_loop_skip:
  fixes as :: "('n, 'm, 'w::len) acquisition list"
  assumes "\<forall>a\<in>set as. acquired_fields a AND ov = 0 \<or> \<not> intersects_with F (a_local_node a) node"
    and "ov \<noteq> 0"
  shows "Restriction_add_acquisition_loop F as node ov = Inr (as, ov, False)"
  using assms
proof (induction as)
  case Nil
  then show ?case by simp
next
  case (Cons a as)
  obtain ln af rs where a: "a = Acquisition ln af rs" by (cases a)
  have "Acquisition_add_acquisition F a node ov = Inr (a, ov)"
    using Cons.prems a by auto
  with Cons show ?case by simp
qed

lemma Acquisition_add_acquisition_loop_skip:
  fixes rs :: "('n, 'm, 'w::len) restriction list"
  assumes "\<forall>x\<in>set rs. restricted_fields x AND ov = 0 \<or>
             (\<not> dominates F (r_local_node x) node \<and> \<not> intersects_with F (r_local_node x) node)"
    and "ov \<noteq> 0"
  shows "Acquisition_add_acquisition_loop F rs node ov = Inr (rs, ov, False)"
  using assms
proof (induction rs)
  case Nil
  then show ?case by simp
next
  case (Cons x rs)
  obtain ln rf insts acqs where x: "x = Restriction ln rf insts acqs" by (cases x)
  have "Restriction_add_acquisition F x node ov = Inr (x, ov)"
    using Cons.prems x by (auto simp: Let_def)
  with Cons show ?case by simp
qed

lemma Restriction_add_acquisition_loop_prefix:
  fixes as1 :: "('n, 'm, 'w::len) acquisition list"
  assumes "\<forall>a\<in>set as1. acquired_fields a AND ov = 0 \<or> \<not> intersects_with F (a_local_node a) node"
    and "ov \<noteq> 0"
  shows "Restriction_add_acquisition_loop F (as1 @ as2) node ov =
           (case Restriction_add_acquisition_loop F as2 node ov of
              Inl e \<Rightarrow> Inl e
            | Inr (as', ov', ret) \<Rightarrow> Inr (as1 @ as', ov', ret))"
  using assms
proof (induction as1)
  case Nil
  then show ?case by (simp split: sum.splits)
next
  case (Cons a as1)
  obtain ln af rs where a: "a = Acquisition ln af rs" by (cases a)
  have "Acquisition_add_acquisition F a node ov = Inr (a, ov)"
    using Cons.prems a by auto
  with Cons show ?case by (simp split: sum.splits)
qed

lemma Acquisition_add_acquisition_loop_prefix:
  fixes rs1 :: "('n, 'm, 'w::len) restriction list"
  assumes "\<forall>x\<in>set rs1. restricted_fields x AND ov = 0 \<or>
             (\<not> dominates F (r_local_node x) node \<and> \<not> intersects_with F (r_local_node x) node)"
    and "ov \<noteq> 0"
  shows "Acquisition_add_acquisition_loop F (rs1 @ rs2) node ov =
           (case Acquisition_add_acquisition_loop F rs2 node ov of
              Inl e \<Rightarrow> Inl e
            | Inr (rs', ov', ret) \<Rightarrow> Inr (rs1 @ rs', ov', ret))"
  using assms
proof (induction rs1)
  case Nil
  then show ?case by (simp split: sum.splits)
next
  case (Cons x rs1)
  obtain ln rf insts acqs where x: "x = Restriction ln rf insts acqs" by (cases x)
  have "Restriction_add_acquisition F x node ov = Inr (x, ov)"
    using Cons.prems x by (auto simp: Let_def)
  with Cons show ?case by (simp split: sum.splits)
qed

lemma Restriction_add_acquisition_nested:
  fixes as1 :: "('n, 'm, 'w::len) acquisition list"
  assumes ov: "rf AND remaining_fields \<noteq> 0"
    and d: "dominates F ln node"
    and sib: "\<forall>a\<in>set (as1 @ as2). acquired_fields a AND (rf AND remaining_fields) = 0 \<or>
                \<not> intersects_with F (a_local_node a) node"
    and a: "af AND (rf AND remaining_fields) \<noteq> 0" "intersects_with F an node"
    and nsib: "\<forall>x\<in>set (rs1 @ rs2). restricted_fields x AND (rf AND remaining_fields) = 0 \<or>
             (\<not> dominates F (r_local_node x) node \<and> \<not> intersects_with F (r_local_node x) node)"
    and r2: "(rf AND remaining_fields) AND NOT rf2 = 0" "dominates F n2 node"
    and sib2: "\<forall>a\<in>set acqs2. acquired_fields a AND (rf AND remaining_fields) = 0 \<or>
                \<not> intersects_with F (a_local_node a) node"
  shows "Restriction_add_acquisition F
           (Restriction ln rf insts
              (as1 @ Acquisition an af (rs1 @ Restriction n2 rf2 i2 acqs2 # rs2) # as2))
           node remaining_fields =
         Inr (Restriction ln rf insts
                (as1 @ Acquisition an af
                   (rs1 @ Restriction n2 rf2 i2
                            (acqs2 @ [Acquisition node (rf AND remaining_fields) []]) # rs2) # as2),
              remaining_fields AND NOT (rf AND remaining_fields))"
proof -
  let ?ov = "rf AND remaining_fields"
  have e: "rf2 AND ?ov = ?ov" using r2(1) by (auto simp: bit_eq_iff bit_simps)
  have z: "?ov AND NOT ?ov = 0" by (rule bit_word_eqI) (auto simp: bit_simps)
  have l2: "Restriction_add_acquisition_loop F acqs2 node ?ov = Inr (acqs2, ?ov, False)"
    using sib2 ov by (rule Restriction_add_acquisition_loop_skip)
  have s2: "Restriction_add_acquisition F (Restriction n2 rf2 i2 acqs2) node ?ov =
      Inr (Restriction n2 rf2 i2 (acqs2 @ [Acquisition node ?ov []]), 0)"
    using e ov r2(2) l2 z by (simp add: Let_def)
  have l1: "Acquisition_add_acquisition_loop F (rs1 @ Restriction n2 rf2 i2 acqs2 # rs2) node ?ov =
      Inr (rs1 @ Restriction n2 rf2 i2 (acqs2 @ [Acquisition node ?ov []]) # rs2, 0, True)"
    using nsib ov s2 by (subst Acquisition_add_acquisition_loop_prefix) auto
  have s1: "Acquisition_add_acquisition F
        (Acquisition an af (rs1 @ Restriction n2 rf2 i2 acqs2 # rs2)) node ?ov =
      Inr (Acquisition an af
             (rs1 @ Restriction n2 rf2 i2 (acqs2 @ [Acquisition node ?ov []]) # rs2), 0)"
    using a l1 by simp
  have l0: "Restriction_add_acquisition_loop F
        (as1 @ Acquisition an af (rs1 @ Restriction n2 rf2 i2 acqs2 # rs2) # as2) node ?ov =
      Inr (as1 @ Acquisition an af
             (rs1 @ Restriction n2 rf2 i2 (acqs2 @ [Acquisition node ?ov []]) # rs2) # as2,
           0, True)"
    using sib ov s1 by (subst Restriction_add_acquisition_loop_prefix) auto
  show ?thesis using ov d l0 by (simp add: Let_def)
qed

lemma Restriction_add_acquisition_nested_partial:
  fixes as1 :: "('n, 'm, 'w::len) acquisition list"
  assumes ov: "rf AND remaining_fields \<noteq> 0"
    and d: "dominates F ln node"
    and sib: "\<forall>a\<in>set (as1 @ as2). acquired_fields a AND (rf AND remaining_fields) = 0 \<or>
                \<not> intersects_with F (a_local_node a) node"
    and a: "af AND (rf AND remaining_fields) \<noteq> 0" "intersects_with F an node"
    and nsib: "\<forall>x\<in>set (rs1 @ rs2). restricted_fields x AND (rf AND remaining_fields) = 0 \<or>
             (\<not> dominates F (r_local_node x) node \<and> \<not> intersects_with F (r_local_node x) node)"
    and r2: "rf2 AND (rf AND remaining_fields) \<noteq> 0" "\<not> dominates F n2 node"
        "intersects_with F n2 node"
  shows "Restriction_add_acquisition F
           (Restriction ln rf insts
              (as1 @ Acquisition an af (rs1 @ Restriction n2 rf2 i2 acqs2 # rs2) # as2))
           node remaining_fields = Inl ERROR_ILLEGAL_PARTIAL_ACQUIRE"
proof -
  let ?ov = "rf AND remaining_fields"
  have s2: "Restriction_add_acquisition F (Restriction n2 rf2 i2 acqs2) node ?ov =
      Inl ERROR_ILLEGAL_PARTIAL_ACQUIRE"
    using r2 by (simp add: Let_def)
  have l1: "Acquisition_add_acquisition_loop F (rs1 @ Restriction n2 rf2 i2 acqs2 # rs2) node ?ov =
      Inl ERROR_ILLEGAL_PARTIAL_ACQUIRE"
    using nsib ov s2 by (subst Acquisition_add_acquisition_loop_prefix) auto
  have s1: "Acquisition_add_acquisition F
        (Acquisition an af (rs1 @ Restriction n2 rf2 i2 acqs2 # rs2)) node ?ov =
      Inl ERROR_ILLEGAL_PARTIAL_ACQUIRE"
    using a l1 by simp
  have l0: "Restriction_add_acquisition_loop F
        (as1 @ Acquisition an af (rs1 @ Restriction n2 rf2 i2 acqs2 # rs2) # as2) node ?ov =
      Inl ERROR_ILLEGAL_PARTIAL_ACQUIRE"
    using sib ov s1 by (subst Restriction_add_acquisition_loop_prefix) auto
  show ?thesis using ov d l0 by (simp add: Let_def)
qed

lemma Restriction_add_acquisition_interfering:
  fixes as1 :: "('n, 'm, 'w::len) acquisition list"
  assumes ov: "rf AND remaining_fields \<noteq> 0"
    and d: "dominates F ln node"
    and sib: "\<forall>a\<in>set (as1 @ as2). acquired_fields a AND (rf AND remaining_fields) = 0 \<or>
                \<not> intersects_with F (a_local_node a) node"
    and a: "af AND (rf AND remaining_fields) \<noteq> 0" "intersects_with F an node"
    and nsib: "\<forall>x\<in>set rs. restricted_fields x AND (rf AND remaining_fields) = 0 \<or>
             (\<not> dominates F (r_local_node x) node \<and> \<not> intersects_with F (r_local_node x) node)"
  shows "Restriction_add_acquisition F
           (Restriction ln rf insts (as1 @ Acquisition an af rs # as2))
           node remaining_fields = Inl ERROR_ILLEGAL_INTERFERING_ACQUIRE"
proof -
  let ?ov = "rf AND remaining_fields"
  have l1: "Acquisition_add_acquisition_loop F rs node ?ov = Inr (rs, ?ov, False)"
    using nsib ov by (rule Acquisition_add_acquisition_loop_skip)
  have s1: "Acquisition_add_acquisition F (Acquisition an af rs) node ?ov =
      Inl ERROR_ILLEGAL_INTERFERING_ACQUIRE"
    using a l1 by simp
  have l0: "Restriction_add_acquisition_loop F (as1 @ Acquisition an af rs # as2) node ?ov =
      Inl ERROR_ILLEGAL_INTERFERING_ACQUIRE"
    using sib ov s1 by (subst Restriction_add_acquisition_loop_prefix) auto
  show ?thesis using ov d l0 by (simp add: Let_def)
qed

subsection \<open>Release\<close>

lemma Acquisition_matches_loop_sub:
  "Acquisition_matches_loop rs ov = Some ov' \<Longrightarrow> ov' AND NOT ov = 0"
proof (induction rs arbitrary: ov)
  case Nil
  then show ?case by simp
next
  case (Cons r rs)
  let ?o = "ov AND NOT (restricted_fields r)"
  from Cons.prems have "Acquisition_matches_loop rs ?o = Some ov'"
    by (simp add: Restriction_remove_restricted_fields_def Let_def split: if_splits)
  then have "ov' AND NOT ?o = 0" by (rule Cons.IH)
  then show ?case by (auto simp: bit_eq_iff bit_simps)
qed

lemma Acquisition_matches_loop_free:
  "\<forall>r\<in>set rs. restricted_fields r AND ov = 0 \<Longrightarrow> ov \<noteq> 0 \<Longrightarrow> Acquisition_matches_loop rs ov = Some ov"
proof (induction rs)
  case Nil then show ?case by simp
next
  case (Cons r rs)
  have "ov AND NOT (restricted_fields r) = ov"
    using Cons.prems(1) by (auto simp: bit_eq_iff bit_simps)
  with Cons show ?case by (simp add: Restriction_remove_restricted_fields_def)
qed

text \<open>
  Claim C2, as the code has it. \<^verbatim>\<open>Acquisition::matches\<close> returns true only at the
  acquisition's own node and only when the release mask covers every acquired field. For a
  release at that node whose mask overlaps the acquired fields, none of the overlap being
  restricted again below, the call removes the released fields from \<^verbatim>\<open>acquired_fields\<close>
  and the acquired fields from the mask, and returns true exactly when no acquired field is
  left. A release of a strict subset therefore shrinks \<^verbatim>\<open>acquired_fields\<close> and keeps
  the acquisition.
\<close>

theorem Acquisition_matches_release:
  fixes a :: "('n, 'm, 'w::len) acquisition"
  shows "(fst (Acquisition_matches a node remaining_fields) \<longrightarrow>
            a_local_node a = node \<and> acquired_fields a AND NOT remaining_fields = 0) \<and>
         (a_local_node a = node \<and> remaining_fields AND acquired_fields a \<noteq> 0 \<and>
          (\<forall>r\<in>set (restrictions a).
              restricted_fields r AND (remaining_fields AND acquired_fields a) = 0) \<longrightarrow>
            Acquisition_matches a node remaining_fields =
              (acquired_fields a AND NOT remaining_fields = 0,
               Acquisition (a_local_node a) (acquired_fields a AND NOT remaining_fields)
                 (restrictions a),
               remaining_fields AND NOT (acquired_fields a)))"
proof (cases a)
  case (Acquisition ln af rs)
  have covers: "af AND NOT remaining_fields = 0"
    if "Acquisition_matches_loop rs (remaining_fields AND af) = Some ov'"
      and "af AND NOT ov' = 0" for ov'
  proof -
    have "ov' AND NOT (remaining_fields AND af) = 0"
      using that(1) by (rule Acquisition_matches_loop_sub)
    with that(2) show ?thesis by (auto simp: bit_eq_iff bit_simps)
  qed
  have first: "fst (Acquisition_matches a node remaining_fields) \<longrightarrow>
      a_local_node a = node \<and> acquired_fields a AND NOT remaining_fields = 0"
    using Acquisition covers by (auto simp: Let_def split: if_splits option.splits)
  have second: "Acquisition_matches a node remaining_fields =
              (acquired_fields a AND NOT remaining_fields = 0,
               Acquisition (a_local_node a) (acquired_fields a AND NOT remaining_fields)
                 (restrictions a),
               remaining_fields AND NOT (acquired_fields a))"
    if h: "a_local_node a = node" "remaining_fields AND acquired_fields a \<noteq> 0"
      "\<forall>r\<in>set (restrictions a).
              restricted_fields r AND (remaining_fields AND acquired_fields a) = 0"
  proof -
    have l: "Acquisition_matches_loop rs (remaining_fields AND af) = Some (remaining_fields AND af)"
      using h Acquisition by (intro Acquisition_matches_loop_free) auto
    have e1: "af AND (NOT remaining_fields OR NOT af) = af AND NOT remaining_fields"
      by (auto simp: bit_eq_iff bit_simps)
    have e2: "remaining_fields AND (NOT remaining_fields OR NOT af) = remaining_fields AND NOT af"
      by (auto simp: bit_eq_iff bit_simps)
    show ?thesis using h Acquisition l by (simp add: Let_def e1 e2)
  qed
  show ?thesis using first second by blast
qed

theorem Acquisition_matches_release_witness:
  "Acquisition_matches (Acquisition (5::nat) (3::8 word) [Restriction 6 (4::8 word) [(9::nat, 4)] []]) 5 3
     = (True, Acquisition 5 0 [Restriction 6 4 [(9, 4)] []], 0)"
  using Acquisition_matches_release
    [of "Acquisition (5::nat) (3::8 word) [Restriction 6 (4::8 word) [(9::nat, 4)] []]" 5 3]
  by simp

text \<open>
  The release mask \<open>1\<close> is a strict subset of the acquired fields \<open>3\<close>; the call
  returns false and leaves \<open>2\<close> acquired, also when it is reached through
  \<^verbatim>\<open>Restriction::remove_acquisition\<close>.
\<close>

theorem Acquisition_matches_partial_release_counterexample:
  "Acquisition_matches (Acquisition (5::nat) (3::8 word) ([]::(nat, nat, 8) restriction list)) 5 1
     = (False, Acquisition 5 2 [], 0) \<and>
   (1::8 word) AND NOT 3 = 0 \<and> (1::8 word) \<noteq> 3 \<and> (2::8 word) \<noteq> 3 \<and>
   Restriction_remove_acquisition point_forest
      (Restriction {0::nat} (3::8 word) [(9::nat, 3)] [Acquisition {0} 3 []]) {0} 1
     = (Restriction {0} 3 [(9, 3)] [Acquisition {0} 2 []], 0)"
  by (simp add: point_forest_def Restriction_remove_restricted_fields_def)

subsection \<open>Acquire\<close>

text \<open>
  Claim C4, as the code has it. Let the acquire mask overlap the restricted fields; the
  overlap is the part of the mask that is restricted.
  \<^item> If the restriction's node does not dominate the acquire node, the call reports the
    illegal partial acquire when the nodes intersect and changes nothing when they do not.
  \<^item> If the node dominates, an error can only come from an acquisition that is already
    there. When the call succeeds, the overlap is removed from the remaining fields; the
    tree keeps every acquisition it had and gains acquisitions at the acquire node, at
    least one and none of them empty, whose fields together are the overlap; the overlap
    is held afterwards; node, restricted fields and instances of the restriction stay.
  \<^item> When every existing acquisition lets the overlap pass, the call succeeds and records
    the overlap in a new acquisition at the acquire node, directly below the restriction.
  \<^item> When one existing acquisition intersects the acquire node and has a field of the
    overlap, its siblings let the overlap pass, and one restriction nested in it has a
    field of the overlap while the other nested restrictions let it pass: if that nested
    restriction covers the overlap, dominates the acquire node and its own acquisitions
    let the overlap pass, the call succeeds and records the overlap in a new acquisition
    below the nested restriction; if its node does not dominate the acquire node but
    intersects it, the call reports the illegal partial acquire.
  \<^item> When one existing acquisition intersects the acquire node and has a field of the
    overlap, its siblings let the overlap pass and so do all restrictions nested in it,
    the call reports the illegal interfering acquire.
\<close>

theorem Restriction_add_acquisition_overlap:
  fixes r :: "('n, 'm, 'w::len) restriction"
  assumes "restricted_fields r AND remaining_fields \<noteq> 0"
  shows
    "(\<not> dominates F (r_local_node r) node \<longrightarrow>
        Restriction_add_acquisition F r node remaining_fields =
          (if intersects_with F (r_local_node r) node then Inl ERROR_ILLEGAL_PARTIAL_ACQUIRE
           else Inr (r, remaining_fields))) \<and>
     (dominates F (r_local_node r) node \<longrightarrow>
        (case Restriction_add_acquisition F r node remaining_fields of
           Inl e \<Rightarrow> acquisitions r \<noteq> []
         | Inr (r', remaining') \<Rightarrow>
             remaining' = remaining_fields AND NOT (restricted_fields r AND remaining_fields) \<and>
             Restriction_acquired r' =
               Restriction_acquired r OR (restricted_fields r AND remaining_fields) \<and>
             Restriction_held r' =
               Restriction_held r OR (restricted_fields r AND remaining_fields) \<and>
             (\<exists>news. news \<noteq> [] \<and>
                mset (Restriction_records r') = mset (Restriction_records r) + mset news \<and>
                (\<forall>p\<in>set news. fst p = node \<and> snd p \<noteq> 0) \<and>
                fields_of news = restricted_fields r AND remaining_fields) \<and>
             r_local_node r' = r_local_node r \<and>
             restricted_fields r' = restricted_fields r \<and>
             instances r' = instances r)) \<and>
     (dominates F (r_local_node r) node \<and>
      (\<forall>a\<in>set (acquisitions r).
          acquired_fields a AND (restricted_fields r AND remaining_fields) = 0 \<or>
          \<not> intersects_with F (a_local_node a) node) \<longrightarrow>
        Restriction_add_acquisition F r node remaining_fields =
          Inr (Restriction (r_local_node r) (restricted_fields r) (instances r)
                 (acquisitions r @
                    [Acquisition node (restricted_fields r AND remaining_fields) []]),
               remaining_fields AND NOT (restricted_fields r AND remaining_fields))) \<and>
     (dominates F (r_local_node r) node \<and>
      acquisitions r = as1 @ Acquisition an af (rs1 @ Restriction n2 rf2 i2 acqs2 # rs2) # as2 \<and>
      (\<forall>a\<in>set (as1 @ as2).
          acquired_fields a AND (restricted_fields r AND remaining_fields) = 0 \<or>
          \<not> intersects_with F (a_local_node a) node) \<and>
      af AND (restricted_fields r AND remaining_fields) \<noteq> 0 \<and> intersects_with F an node \<and>
      (\<forall>x\<in>set (rs1 @ rs2).
          restricted_fields x AND (restricted_fields r AND remaining_fields) = 0 \<or>
          (\<not> dominates F (r_local_node x) node \<and>
           \<not> intersects_with F (r_local_node x) node)) \<longrightarrow>
        ((restricted_fields r AND remaining_fields) AND NOT rf2 = 0 \<and>
         dominates F n2 node \<and>
         (\<forall>a\<in>set acqs2.
             acquired_fields a AND (restricted_fields r AND remaining_fields) = 0 \<or>
             \<not> intersects_with F (a_local_node a) node) \<longrightarrow>
           Restriction_add_acquisition F r node remaining_fields =
             Inr (Restriction (r_local_node r) (restricted_fields r) (instances r)
                    (as1 @ Acquisition an af
                       (rs1 @ Restriction n2 rf2 i2
                          (acqs2 @
                             [Acquisition node (restricted_fields r AND remaining_fields) []])
                        # rs2) # as2),
                  remaining_fields AND NOT (restricted_fields r AND remaining_fields))) \<and>
        (rf2 AND (restricted_fields r AND remaining_fields) \<noteq> 0 \<and>
         \<not> dominates F n2 node \<and> intersects_with F n2 node \<longrightarrow>
           Restriction_add_acquisition F r node remaining_fields =
             Inl ERROR_ILLEGAL_PARTIAL_ACQUIRE)) \<and>
     (dominates F (r_local_node r) node \<and>
      acquisitions r = bs1 @ Acquisition bn bf brs # bs2 \<and>
      (\<forall>a\<in>set (bs1 @ bs2).
          acquired_fields a AND (restricted_fields r AND remaining_fields) = 0 \<or>
          \<not> intersects_with F (a_local_node a) node) \<and>
      bf AND (restricted_fields r AND remaining_fields) \<noteq> 0 \<and> intersects_with F bn node \<and>
      (\<forall>x\<in>set brs.
          restricted_fields x AND (restricted_fields r AND remaining_fields) = 0 \<or>
          (\<not> dominates F (r_local_node x) node \<and>
           \<not> intersects_with F (r_local_node x) node)) \<longrightarrow>
        Restriction_add_acquisition F r node remaining_fields =
          Inl ERROR_ILLEGAL_INTERFERING_ACQUIRE)"
proof (cases r)
  case (Restriction ln rf insts acqs)
  let ?ov = "rf AND remaining_fields"
  have ov: "?ov \<noteq> 0" using assms Restriction by simp
  have t: "remaining_fields AND NOT (remaining_fields AND NOT ?ov) = ?ov"
    by (rule bit_word_eqI) (auto simp: bit_simps)
  have A: "\<not> dominates F ln node \<Longrightarrow>
        Restriction_add_acquisition F r node remaining_fields =
          (if intersects_with F ln node then Inl ERROR_ILLEGAL_PARTIAL_ACQUIRE
           else Inr (r, remaining_fields))"
    using ov Restriction by (simp add: Let_def)
  have B: "(case Restriction_add_acquisition F r node remaining_fields of
           Inl e \<Rightarrow> acqs \<noteq> []
         | Inr (r', remaining') \<Rightarrow>
             remaining' = remaining_fields AND NOT ?ov \<and>
             Restriction_acquired r' = Acquisitions_acquired acqs OR ?ov \<and>
             Restriction_held r' = Acquisitions_held acqs OR ?ov \<and>
             (\<exists>news. news \<noteq> [] \<and>
                mset (Restriction_records r') = mset (Acquisitions_records acqs) + mset news \<and>
                (\<forall>p\<in>set news. fst p = node \<and> snd p \<noteq> 0) \<and> fields_of news = ?ov) \<and>
             r_local_node r' = ln \<and> restricted_fields r' = rf \<and> instances r' = insts)"
    if d: "dominates F ln node"
  proof (cases "Restriction_add_acquisition F r node remaining_fields")
    case (Inl e)
    have "acqs \<noteq> []"
    proof
      assume "acqs = []"
      then show False using Inl d ov Restriction by (simp add: Let_def)
    qed
    then show ?thesis using Inl by simp
  next
    case (Inr p)
    obtain r' remaining' where p: "p = (r', remaining')" by (cases p)
    have rem: "remaining' = remaining_fields AND NOT ?ov"
      and sel': "r_local_node r' = ln" "restricted_fields r' = rf" "instances r' = insts"
      using Inr p d ov Restriction
      by (auto simp: Let_def split: sum.splits prod.splits if_splits)
    have taken: "remaining_fields AND NOT remaining' = ?ov" using rem t by simp
    have acq: "Restriction_acquired r' = Acquisitions_acquired acqs OR ?ov"
      using add_acquisition_acquired(1)
              [where F = F and r = r and node = node and rem = remaining_fields]
            Inr p taken Restriction by simp
    have held: "Restriction_held r' = Acquisitions_held acqs OR ?ov"
      using add_acquisition_held(1)
              [where F = F and r = r and node = node and rem = remaining_fields]
            Inr p taken Restriction by simp
    obtain news where n:
        "mset (Restriction_records r') = mset (Restriction_records r) + mset news"
        "\<forall>p\<in>set news. fst p = node \<and> snd p \<noteq> 0"
        "fields_of news = remaining_fields AND NOT remaining'"
      using add_acquisition_records(1)
              [where F = F and r = r and node = node and rem = remaining_fields]
            Inr p by auto
    have "news \<noteq> []" using n(3) taken ov by auto
    then have "\<exists>news. news \<noteq> [] \<and>
                mset (Restriction_records r') = mset (Acquisitions_records acqs) + mset news \<and>
                (\<forall>p\<in>set news. fst p = node \<and> snd p \<noteq> 0) \<and> fields_of news = ?ov"
      using n taken Restriction by auto
    then show ?thesis using Inr p rem sel' acq held by simp
  qed
  have C: "Restriction_add_acquisition F r node remaining_fields =
          Inr (Restriction ln rf insts (acqs @ [Acquisition node ?ov []]),
               remaining_fields AND NOT ?ov)"
    if d: "dominates F ln node"
      and s: "\<forall>a\<in>set acqs. acquired_fields a AND ?ov = 0 \<or>
                \<not> intersects_with F (a_local_node a) node"
  proof -
    have "Restriction_add_acquisition_loop F acqs node ?ov = Inr (acqs, ?ov, False)"
      using s ov by (rule Restriction_add_acquisition_loop_skip)
    then show ?thesis using d ov Restriction by (simp add: Let_def)
  qed
  have D: "Restriction_add_acquisition F r node remaining_fields =
             Inr (Restriction ln rf insts
                    (as1 @ Acquisition an af
                       (rs1 @ Restriction n2 rf2 i2 (acqs2 @ [Acquisition node ?ov []]) # rs2)
                     # as2),
                  remaining_fields AND NOT ?ov)"
    if "dominates F ln node"
      and "acqs = as1 @ Acquisition an af (rs1 @ Restriction n2 rf2 i2 acqs2 # rs2) # as2"
      and "\<forall>a\<in>set (as1 @ as2). acquired_fields a AND ?ov = 0 \<or>
             \<not> intersects_with F (a_local_node a) node"
      and "af AND ?ov \<noteq> 0" and "intersects_with F an node"
      and "\<forall>x\<in>set (rs1 @ rs2). restricted_fields x AND ?ov = 0 \<or>
             (\<not> dominates F (r_local_node x) node \<and> \<not> intersects_with F (r_local_node x) node)"
      and "?ov AND NOT rf2 = 0" and "dominates F n2 node"
      and "\<forall>a\<in>set acqs2. acquired_fields a AND ?ov = 0 \<or>
             \<not> intersects_with F (a_local_node a) node"
    unfolding Restriction that(2)
    using ov that(1,3-9) by (rule Restriction_add_acquisition_nested)
  have E: "Restriction_add_acquisition F r node remaining_fields =
             Inl ERROR_ILLEGAL_PARTIAL_ACQUIRE"
    if "dominates F ln node"
      and "acqs = as1 @ Acquisition an af (rs1 @ Restriction n2 rf2 i2 acqs2 # rs2) # as2"
      and "\<forall>a\<in>set (as1 @ as2). acquired_fields a AND ?ov = 0 \<or>
             \<not> intersects_with F (a_local_node a) node"
      and "af AND ?ov \<noteq> 0" and "intersects_with F an node"
      and "\<forall>x\<in>set (rs1 @ rs2). restricted_fields x AND ?ov = 0 \<or>
             (\<not> dominates F (r_local_node x) node \<and> \<not> intersects_with F (r_local_node x) node)"
      and "rf2 AND ?ov \<noteq> 0" and "\<not> dominates F n2 node" and "intersects_with F n2 node"
    unfolding Restriction that(2)
    using ov that(1,3-9) by (rule Restriction_add_acquisition_nested_partial)
  have G: "Restriction_add_acquisition F r node remaining_fields =
             Inl ERROR_ILLEGAL_INTERFERING_ACQUIRE"
    if "dominates F ln node"
      and "acqs = bs1 @ Acquisition bn bf brs # bs2"
      and "\<forall>a\<in>set (bs1 @ bs2). acquired_fields a AND ?ov = 0 \<or>
             \<not> intersects_with F (a_local_node a) node"
      and "bf AND ?ov \<noteq> 0" and "intersects_with F bn node"
      and "\<forall>x\<in>set brs. restricted_fields x AND ?ov = 0 \<or>
             (\<not> dominates F (r_local_node x) node \<and> \<not> intersects_with F (r_local_node x) node)"
    unfolding Restriction that(2)
    using ov that(1,3-6) by (rule Restriction_add_acquisition_interfering)
  have sel: "r_local_node r = ln" "restricted_fields r = rf" "instances r = insts"
      "acquisitions r = acqs" "Restriction_acquired r = Acquisitions_acquired acqs"
      "Restriction_held r = Acquisitions_held acqs"
      "Restriction_records r = Acquisitions_records acqs"
    using Restriction by simp_all
  show ?thesis unfolding sel
    by (intro conjI impI; (elim conjE)?) (use A B C D E G in blast)+
qed

theorem Restriction_add_acquisition_overlap_witness:
  "Restriction_add_acquisition point_forest
      (Restriction {0, 1::nat} (3::8 word) [(9::nat, 3)] [Acquisition {1} 2 []]) {0} 1
     = Inr (Restriction {0, 1} 3 [(9, 3)] [Acquisition {1} 2 [], Acquisition {0} 1 []], 0) \<and>
   Restriction_add_acquisition point_forest
      (Restriction {0, 1::nat} (3::8 word) [(9::nat, 3)] []) {1, 2} 1
     = Inl ERROR_ILLEGAL_PARTIAL_ACQUIRE \<and>
   Restriction_add_acquisition point_forest
      (Restriction {0, 1::nat} (3::8 word) [(9::nat, 3)]
         [Acquisition {0, 1} 3 [Restriction {0} 1 [(8, 1)] []]]) {0} 1
     = Inr (Restriction {0, 1} 3 [(9, 3)]
              [Acquisition {0, 1} 3 [Restriction {0} 1 [(8, 1)] [Acquisition {0} 1 []]]], 0) \<and>
   Restriction_add_acquisition point_forest
      (Restriction {0, 1::nat} (3::8 word) [(9::nat, 3)]
         [Acquisition {0, 1} 3 [Restriction {0} 1 [(8, 1)] []]]) {0, 1} 1
     = Inl ERROR_ILLEGAL_PARTIAL_ACQUIRE"
  using Restriction_add_acquisition_overlap
    [where r = "Restriction {0, 1::nat} (3::8 word) [(9::nat, 3)] [Acquisition {1} 2 []]"
       and remaining_fields = 1 and F = point_forest and node = "{0}"]
    Restriction_add_acquisition_overlap
    [where r = "Restriction {0, 1::nat} (3::8 word) [(9::nat, 3)] []"
       and remaining_fields = 1 and F = point_forest and node = "{1, 2}"]
    Restriction_add_acquisition_overlap
    [where r = "Restriction {0, 1::nat} (3::8 word) [(9::nat, 3)]
                  [Acquisition {0, 1} 3 [Restriction {0} 1 [(8, 1)] []]]"
       and remaining_fields = 1 and F = point_forest and node = "{0}"
       and ?as1.0 = "[]" and ?as2.0 = "[]" and an = "{0, 1}" and af = 3
       and ?rs1.0 = "[]" and ?rs2.0 = "[]" and ?n2.0 = "{0}" and ?rf2.0 = 1
       and ?i2.0 = "[(8, 1)]" and ?acqs2.0 = "[]"]
    Restriction_add_acquisition_overlap
    [where r = "Restriction {0, 1::nat} (3::8 word) [(9::nat, 3)]
                  [Acquisition {0, 1} 3 [Restriction {0} 1 [(8, 1)] []]]"
       and remaining_fields = 1 and F = point_forest and node = "{0, 1}"
       and ?as1.0 = "[]" and ?as2.0 = "[]" and an = "{0, 1}" and af = 3
       and ?rs1.0 = "[]" and ?rs2.0 = "[]" and ?n2.0 = "{0}" and ?rf2.0 = 1
       and ?i2.0 = "[(8, 1)]" and ?acqs2.0 = "[]"]
  by (simp add: point_forest_def)

text \<open>
  The restriction's node dominates the acquire node, yet the acquire fails: the fields are
  already acquired at a node that intersects it, with no restriction below to take them.
\<close>

theorem Restriction_add_acquisition_interfering_counterexample:
  "dominates point_forest {0::nat} {0} \<and> (1::8 word) AND 1 \<noteq> 0 \<and>
   Restriction_add_acquisition point_forest
      (Restriction {0::nat} (1::8 word) [(9::nat, 1)] [Acquisition {0} 1 []]) {0} 1
     = Inl ERROR_ILLEGAL_INTERFERING_ACQUIRE"
  by (simp add: point_forest_def)

subsection \<open>Attach, acquire, release, detach\<close>

text \<open>
  Claim C5. The coordinator holds one restriction at region \<open>R\<close> with the non-empty
  fields \<open>f\<close>, and \<open>R\<close> dominates and intersects itself. Acquire of \<open>(R, f)\<close> adds
  one acquisition, release of \<open>(R, f)\<close> removes it again, \<^verbatim>\<open>Restriction::matches\<close>
  then returns true for the detach of \<open>(R, f)\<close>, and the coordinator is left empty.
\<close>

theorem restriction_nesting:
  fixes f :: "'w::len word"
  assumes "f \<noteq> 0" and "dominates F R R" and "intersects_with F R R"
  shows "record_acquire F [Restriction R f insts []] R f =
           Inr ([Restriction R f insts [Acquisition R f []]], 0) \<and>
         record_release F [Restriction R f insts [Acquisition R f []]] R f =
           ([Restriction R f insts []], 0) \<and>
         Restriction_matches (Restriction R f insts []) R f =
           (True, Restriction R 0 insts [], 0, []) \<and>
         record_detach [Restriction R f insts []] R f = ([], 0)"
  using assms by (simp add: Let_def)

theorem restriction_nesting_witness:
  "record_acquire point_forest [Restriction {0, 1::nat} (5::8 word) [(9::nat, 5)] []] {0, 1} 5 =
           Inr ([Restriction {0, 1} 5 [(9, 5)] [Acquisition {0, 1} 5 []]], 0) \<and>
         record_release point_forest [Restriction {0, 1::nat} (5::8 word) [(9::nat, 5)] [Acquisition {0, 1} 5 []]] {0, 1} 5 =
           ([Restriction {0, 1} 5 [(9, 5)] []], 0) \<and>
         record_detach [Restriction {0, 1::nat} (5::8 word) [(9::nat, 5)] []] {0, 1} 5 = ([], 0)"
  using restriction_nesting [of "5::8 word" point_forest "{0, 1::nat}" "[(9::nat, 5)]"]
  by (simp add: point_forest_def)

section \<open>Properties of the logical state\<close>

subsection \<open>Mergeable field states\<close>

text \<open>
  Claim C3, as the code has it. \<^verbatim>\<open>FieldState::overlaps\<close> returns true exactly when the
  two field states have the same reduction operator, the same projection function, the
  same projection space if there is a projection, and moreover the same open state when
  the reduction operator is \<open>0\<close>, but the same \<^verbatim>\<open>valid_fields\<close> when it is not: for
  reductions the open state is not compared and the masks are.
\<close>

theorem FieldState_overlaps_iff:
  "FieldState_overlaps lhs rhs \<longleftrightarrow>
     FieldState.redop lhs = FieldState.redop rhs \<and> projection lhs = projection rhs \<and>
     (projection lhs \<noteq> None \<longrightarrow> projection_space lhs = projection_space rhs) \<and>
     (if FieldState.redop lhs = 0 then open_state lhs = open_state rhs
      else FieldState.valid_fields lhs = FieldState.valid_fields rhs)"
  by (auto simp: FieldState_overlaps_def)

theorem FieldState_overlaps_iff_witness:
  "FieldState_overlaps
     \<lparr>FieldState.valid_fields = (1::8 word), open_children = [(0::nat, 1)],
      open_state = OPEN_READ_ONLY_PROJ, redop = (0::nat), projection = Some (7::nat),
      projection_space = Some (2::nat), rebuild_timeout = 1\<rparr>
     \<lparr>FieldState.valid_fields = (6::8 word), open_children = [(1::nat, 6)],
      open_state = OPEN_READ_ONLY_PROJ, redop = (0::nat), projection = Some (7::nat),
      projection_space = Some (2::nat), rebuild_timeout = 1\<rparr>"
  using FieldState_overlaps_iff
    [of "\<lparr>FieldState.valid_fields = (1::8 word), open_children = [(0::nat, 1)],
      open_state = OPEN_READ_ONLY_PROJ, redop = (0::nat), projection = Some (7::nat),
      projection_space = Some (2::nat), rebuild_timeout = 1\<rparr>"
     "\<lparr>FieldState.valid_fields = (6::8 word), open_children = [(1::nat, 6)],
      open_state = OPEN_READ_ONLY_PROJ, redop = (0::nat), projection = Some (7::nat),
      projection_space = Some (2::nat), rebuild_timeout = 1\<rparr>"]
  by simp

text \<open>
  Two reduction states with operator \<open>3\<close> and the same mask overlap although their
  open states differ; two with the same open state, operator, projection and projection
  space do not overlap because their masks differ.
\<close>

theorem FieldState_overlaps_counterexample:
  "FieldState_overlaps
     \<lparr>FieldState.valid_fields = (1::8 word), open_children = [(0::nat, 1)],
      open_state = OPEN_SINGLE_REDUCE, redop = (3::nat), projection = (None::nat option),
      projection_space = (None::nat option), rebuild_timeout = 1\<rparr>
     \<lparr>FieldState.valid_fields = (1::8 word), open_children = [(0::nat, 1), (1, 1)],
      open_state = OPEN_MULTI_REDUCE, redop = (3::nat), projection = (None::nat option),
      projection_space = (None::nat option), rebuild_timeout = 1\<rparr> \<and>
   OPEN_SINGLE_REDUCE \<noteq> OPEN_MULTI_REDUCE \<and>
   \<not> FieldState_overlaps
     \<lparr>FieldState.valid_fields = (1::8 word), open_children = [(0::nat, 1)],
      open_state = OPEN_SINGLE_REDUCE, redop = (3::nat), projection = (None::nat option),
      projection_space = (None::nat option), rebuild_timeout = 1\<rparr>
     \<lparr>FieldState.valid_fields = (2::8 word), open_children = [(0::nat, 2)],
      open_state = OPEN_SINGLE_REDUCE, redop = (3::nat), projection = (None::nat option),
      projection_space = (None::nat option), rebuild_timeout = 1\<rparr>"
  by (simp add: FieldState_overlaps_def)

subsection \<open>Advancing the projection epochs\<close>

lemma to_add_update_keys:
  "fst ` set (to_add_update k0 ov ta) = insert k0 (fst ` set ta)"
  by (induction k0 ov ta rule: to_add_update.induct) auto

lemma to_add_update_ok:
  assumes "to_add_ok m ta" and "ov \<noteq> 0" and "ov AND NOT m = 0"
  shows "to_add_ok m (to_add_update k0 ov ta)"
  using assms
proof (induction k0 ov ta rule: to_add_update.induct)
  case (1 k0 ov)
  then show ?case by (simp add: to_add_ok_def new_ProjectionEpoch_def)
next
  case (2 k0 ov k ep ta)
  have tl: "to_add_ok m ta" using "2.prems"(1) by (simp add: to_add_ok_def)
  have nz: "ProjectionEpoch.valid_fields ep OR ov \<noteq> 0"
    using "2.prems"(2) by (auto simp: bit_eq_iff bit_simps)
  have sub: "(ProjectionEpoch.valid_fields ep OR ov) AND NOT m = 0"
    using "2.prems"(1,3) by (auto simp: to_add_ok_def bit_eq_iff bit_simps)
  show ?case
  proof (cases "k0 = k")
    case True
    then show ?thesis using "2.prems"(1) nz sub by (simp add: to_add_ok_def)
  next
    case False
    show ?thesis
    proof (cases "k0 < k")
      case True
      then show ?thesis
        using "2.prems" False by (auto simp: to_add_ok_def new_ProjectionEpoch_def)
    next
      case ge: False
      have "to_add_ok m (to_add_update k0 ov ta)"
        using "2.IH" False ge tl "2.prems"(2,3) by simp
      moreover have "\<forall>j\<in>fst ` set (to_add_update k0 ov ta). k < j"
        using "2.prems"(1) False ge by (auto simp: to_add_update_keys to_add_ok_def)
      ultimately show ?thesis
        using "2.prems"(1) False ge by (auto simp: to_add_ok_def)
    qed
  qed
qed

lemma in_epoch_to_add_update:
  "in_epoch (map snd (to_add_update k0 ov ta)) k n \<longleftrightarrow>
     in_epoch (map snd ta) k n \<or> (k = k0 \<and> bit ov n)"
  if "\<forall>x\<in>set ta. epoch_id (snd x) = fst x"
  using that
  by (induction k0 ov ta rule: to_add_update.induct)
     (auto simp: in_epoch_def new_ProjectionEpoch_def bit_simps)


lemma in_epoch_Cons:
  "in_epoch (x # xs) k n \<longleftrightarrow>
     (epoch_id x = k \<and> bit (ProjectionEpoch.valid_fields x) n) \<or> in_epoch xs k n"
  by (auto simp: in_epoch_def)

lemma advance_projection_epochs_loop_props:
  fixes es :: "('e::{linorder,one,plus}, 'w::len word, 'p, 's) ProjectionEpoch list"
  assumes "advance_projection_epochs_loop es m ta = (es', ta')"
    and "to_add_ok m ta"
  shows "to_add_ok m ta' \<and>
    (\<forall>x\<in>set es'. ProjectionEpoch.valid_fields x AND m = 0 \<and>
            (\<exists>y\<in>set es. epoch_id x = epoch_id y \<and>
               ProjectionEpoch.valid_fields x AND NOT (ProjectionEpoch.valid_fields y) = 0)) \<and>
    ((\<forall>y\<in>set es. ProjectionEpoch.valid_fields y \<noteq> 0) \<longrightarrow>
       (\<forall>x\<in>set es'. ProjectionEpoch.valid_fields x \<noteq> 0)) \<and>
    (epochs_disjoint es \<longrightarrow> epochs_disjoint es') \<and>
    (\<forall>k n. in_epoch es' k n \<longleftrightarrow> in_epoch es k n \<and> \<not> bit m n) \<and>
    (\<forall>k n. in_epoch (map snd ta') k n \<longleftrightarrow>
           in_epoch (map snd ta) k n \<or>
           (\<exists>e\<in>set es. epoch_id e + 1 = k \<and> bit (ProjectionEpoch.valid_fields e) n \<and> bit m n))"
  using assms
proof (induction es arbitrary: ta es' ta')
  case Nil
  then show ?case by (auto simp: in_epoch_def)
next
  case (Cons e es)
  let ?v = "ProjectionEpoch.valid_fields e"
  let ?ov = "?v AND m"
  let ?ta1 = "to_add_update (epoch_id e + 1) ?ov ta"
  let ?e' = "e\<lparr>ProjectionEpoch.valid_fields := ?v AND NOT ?ov\<rparr>"
  have e'bit: "bit (ProjectionEpoch.valid_fields ?e') n \<longleftrightarrow> bit ?v n \<and> \<not> bit m n" for n
    by (auto simp: bit_simps dest: bit_imp_le_length)
  have e'id: "epoch_id ?e' = epoch_id e" by simp
  have e'sub: "(?v AND NOT ?ov) AND NOT ?v = 0" "(?v AND NOT ?ov) AND m = 0"
    by (auto simp: bit_eq_iff bit_simps)
  have shrink: "epochs_disjoint (x # es1)"
    if "epochs_disjoint (e # es)" "epochs_disjoint es1" "epoch_id x = epoch_id e"
      "ProjectionEpoch.valid_fields x AND NOT ?v = 0"
      "\<forall>x\<in>set es1. \<exists>y\<in>set es. epoch_id x = epoch_id y \<and>
               ProjectionEpoch.valid_fields x AND NOT (ProjectionEpoch.valid_fields y) = 0"
    for x es1
  proof -
    have "ProjectionEpoch.valid_fields x AND ProjectionEpoch.valid_fields z = 0"
      if z: "z \<in> set es1" "epoch_id z = epoch_id x" for z
    proof -
      obtain y where y: "y \<in> set es" "epoch_id z = epoch_id y"
        "ProjectionEpoch.valid_fields z AND NOT (ProjectionEpoch.valid_fields y) = 0"
        using \<open>\<forall>x\<in>set es1. _\<close> z(1) by blast
      have "?v AND ProjectionEpoch.valid_fields y = 0"
        using \<open>epochs_disjoint (e # es)\<close> y(1,2) z(2) \<open>epoch_id x = epoch_id e\<close> by simp
      with y(3) \<open>ProjectionEpoch.valid_fields x AND NOT ?v = 0\<close> show ?thesis
        by (auto simp: bit_eq_iff bit_simps)
    qed
    then show ?thesis using \<open>epochs_disjoint es1\<close> by simp
  qed
  show ?case
  proof (cases "?ov = 0")
    case True
    obtain es1 ta1 where r: "advance_projection_epochs_loop es m ta = (es1, ta1)" by force
    have res: "es' = e # es1" "ta' = ta1"
      using Cons.prems(1) True r by (simp_all add: Let_def)
    note IH = Cons.IH [OF r Cons.prems(2)]
    have nb: "bit ?v n \<Longrightarrow> \<not> bit m n" for n
      using True by (auto simp: bit_eq_iff bit_simps dest: bit_imp_le_length)
    have c1: "to_add_ok m ta1" using IH by simp
    have c2: "\<forall>x\<in>set (e # es1). ProjectionEpoch.valid_fields x AND m = 0 \<and>
            (\<exists>y\<in>set (e # es). epoch_id x = epoch_id y \<and>
               ProjectionEpoch.valid_fields x AND NOT (ProjectionEpoch.valid_fields y) = 0)"
      using IH True by auto
    have c3: "(\<forall>y\<in>set (e # es). ProjectionEpoch.valid_fields y \<noteq> 0) \<longrightarrow>
       (\<forall>x\<in>set (e # es1). ProjectionEpoch.valid_fields x \<noteq> 0)"
      using IH by auto
    have c4: "epochs_disjoint (e # es) \<longrightarrow> epochs_disjoint (e # es1)"
      using shrink [of es1 e] IH by auto
    have IH5: "\<forall>k n. in_epoch es1 k n \<longleftrightarrow> in_epoch es k n \<and> \<not> bit m n"
      using IH by blast
    have c5: "\<forall>k n. in_epoch (e # es1) k n \<longleftrightarrow> in_epoch (e # es) k n \<and> \<not> bit m n"
      using IH5 nb unfolding in_epoch_Cons by blast
    have c6: "\<forall>k n. in_epoch (map snd ta1) k n \<longleftrightarrow>
           in_epoch (map snd ta) k n \<or>
           (\<exists>x\<in>set (e # es). epoch_id x + 1 = k \<and> bit (ProjectionEpoch.valid_fields x) n \<and> bit m n)"
      using IH nb by auto
    show ?thesis unfolding res using c1 c2 c3 c4 c5 c6 by blast
  next
    case False
    have ok1: "to_add_ok m ?ta1"
      using Cons.prems(2) False by (intro to_add_update_ok) (auto simp: bit_eq_iff bit_simps)
    have keys: "\<forall>x\<in>set ta. epoch_id (snd x) = fst x"
      using Cons.prems(2) by (simp add: to_add_ok_def)
    have ta1: "in_epoch (map snd ?ta1) k n \<longleftrightarrow>
        in_epoch (map snd ta) k n \<or> (k = epoch_id e + 1 \<and> bit ?v n \<and> bit m n)" for k n
      using in_epoch_to_add_update [OF keys] by (simp add: bit_simps)
    obtain es1 ta2 where r: "advance_projection_epochs_loop es m ?ta1 = (es1, ta2)" by force
    note IH = Cons.IH [OF r ok1]
    have c1: "to_add_ok m ta2" using IH by simp
    have c6: "\<forall>k n. in_epoch (map snd ta2) k n \<longleftrightarrow>
           in_epoch (map snd ta) k n \<or>
           (\<exists>x\<in>set (e # es). epoch_id x + 1 = k \<and> bit (ProjectionEpoch.valid_fields x) n \<and> bit m n)"
    proof (intro allI)
      fix k n
      have "in_epoch (map snd ta2) k n \<longleftrightarrow> in_epoch (map snd ?ta1) k n \<or>
           (\<exists>x\<in>set es. epoch_id x + 1 = k \<and> bit (ProjectionEpoch.valid_fields x) n \<and> bit m n)"
        using IH by blast
      then show "in_epoch (map snd ta2) k n \<longleftrightarrow>
           in_epoch (map snd ta) k n \<or>
           (\<exists>x\<in>set (e # es). epoch_id x + 1 = k \<and> bit (ProjectionEpoch.valid_fields x) n \<and> bit m n)"
        unfolding ta1 by auto
    qed
    show ?thesis
    proof (cases "?v AND NOT ?ov = 0")
      case empty: True
      have res: "es' = es1" "ta' = ta2"
        using Cons.prems(1) False empty r by (simp_all add: Let_def)
      have ab: "bit ?v n \<Longrightarrow> bit m n" for n
        using empty by (auto simp: bit_eq_iff bit_simps dest: bit_imp_le_length)
      have c2: "\<forall>x\<in>set es1. ProjectionEpoch.valid_fields x AND m = 0 \<and>
            (\<exists>y\<in>set (e # es). epoch_id x = epoch_id y \<and>
               ProjectionEpoch.valid_fields x AND NOT (ProjectionEpoch.valid_fields y) = 0)"
        using IH by auto
      have c3: "(\<forall>y\<in>set (e # es). ProjectionEpoch.valid_fields y \<noteq> 0) \<longrightarrow>
         (\<forall>x\<in>set es1. ProjectionEpoch.valid_fields x \<noteq> 0)"
        using IH by auto
      have c4: "epochs_disjoint (e # es) \<longrightarrow> epochs_disjoint es1"
        using IH by auto
      have IH5: "\<forall>k n. in_epoch es1 k n \<longleftrightarrow> in_epoch es k n \<and> \<not> bit m n"
        using IH by blast
      have c5: "\<forall>k n. in_epoch es1 k n \<longleftrightarrow> in_epoch (e # es) k n \<and> \<not> bit m n"
        using IH5 ab unfolding in_epoch_Cons by blast
      show ?thesis unfolding res using c1 c2 c3 c4 c5 c6 by blast
    next
      case nonempty: False
      have res: "es' = ?e' # es1" "ta' = ta2"
        using Cons.prems(1) False nonempty r by (simp_all add: Let_def)
      have c2: "\<forall>x\<in>set (?e' # es1). ProjectionEpoch.valid_fields x AND m = 0 \<and>
            (\<exists>y\<in>set (e # es). epoch_id x = epoch_id y \<and>
               ProjectionEpoch.valid_fields x AND NOT (ProjectionEpoch.valid_fields y) = 0)"
        using IH e'sub by auto
      have c3: "(\<forall>y\<in>set (e # es). ProjectionEpoch.valid_fields y \<noteq> 0) \<longrightarrow>
         (\<forall>x\<in>set (?e' # es1). ProjectionEpoch.valid_fields x \<noteq> 0)"
        using IH nonempty by auto
      have c4: "epochs_disjoint (e # es) \<longrightarrow> epochs_disjoint (?e' # es1)"
        using shrink [of es1 "?e'"] IH e'sub by auto
      have IH5: "\<forall>k n. in_epoch es1 k n \<longleftrightarrow> in_epoch es k n \<and> \<not> bit m n"
        using IH by blast
      have c5: "\<forall>k n. in_epoch (?e' # es1) k n \<longleftrightarrow> in_epoch (e # es) k n \<and> \<not> bit m n"
        using IH5 unfolding in_epoch_Cons e'bit e'id by blast
      show ?thesis unfolding res using c1 c2 c3 c4 c5 c6 by blast
    qed
  qed
qed


lemma in_epoch_append:
  "in_epoch (xs @ ys) k n \<longleftrightarrow> in_epoch xs k n \<or> in_epoch ys k n"
  by (auto simp: in_epoch_def)

lemma epochs_disjoint_append:
  "epochs_disjoint (xs @ ys) \<longleftrightarrow>
     epochs_disjoint xs \<and> epochs_disjoint ys \<and>
     (\<forall>x\<in>set xs. \<forall>y\<in>set ys. epoch_id y = epoch_id x \<longrightarrow>
         ProjectionEpoch.valid_fields x AND ProjectionEpoch.valid_fields y = 0)"
  by (induction xs) auto

lemma epochs_disjoint_distinct:
  "distinct (map epoch_id xs) \<Longrightarrow> epochs_disjoint xs"
proof (induction xs)
  case Nil
  then show ?case by simp
next
  case (Cons a xs)
  have "epoch_id e' \<noteq> epoch_id a" if "e' \<in> set xs" for e'
  proof -
    from that have "epoch_id e' \<in> epoch_id ` set xs" by (rule imageI)
    moreover from Cons.prems have "epoch_id a \<notin> epoch_id ` set xs" by simp
    ultimately show ?thesis by metis
  qed
  then show ?case using Cons by simp
qed

lemma to_add_ok_disjoint:
  assumes "to_add_ok m ta"
  shows "epochs_disjoint (map snd ta)"
proof -
  have "map epoch_id (map snd ta) = map fst ta"
    using assms by (auto simp: to_add_ok_def)
  moreover have "distinct (map fst ta)"
    using assms by (simp add: to_add_ok_def strict_sorted_iff)
  ultimately have "distinct (map epoch_id (map snd ta))" by (simp only:)
  then show ?thesis by (rule epochs_disjoint_distinct)
qed

text \<open>
  Claim C8. If every epoch of the list has a field and no two epochs with the same id
  share one, the same holds after \<^verbatim>\<open>advance_projection_epochs\<close>. A field of the advance
  mask lies afterwards in an epoch with id \<open>k\<close> exactly when it lay in an epoch whose id
  plus one is \<open>k\<close>; in particular a field that lay in an epoch with id \<open>k\<close> lies in one
  with id \<open>k + 1\<close>. A field outside the advance mask lies in an epoch with id \<open>k\<close>
  afterwards exactly when it did before.
\<close>

theorem advance_projection_epochs_invariant:
  fixes es :: "('e::{linorder,one,plus}, 'w::len word, 'p, 's) ProjectionEpoch list"
  assumes "projection_epochs_ok es"
  shows "projection_epochs_ok (advance_projection_epochs es m) \<and>
     (\<forall>k n. bit m n \<and> in_epoch es k n \<longrightarrow> in_epoch (advance_projection_epochs es m) (k + 1) n) \<and>
     (\<forall>k n. bit m n \<longrightarrow>
        (in_epoch (advance_projection_epochs es m) k n \<longleftrightarrow> (\<exists>j. j + 1 = k \<and> in_epoch es j n))) \<and>
     (\<forall>k n. \<not> bit m n \<longrightarrow>
        (in_epoch (advance_projection_epochs es m) k n \<longleftrightarrow> in_epoch es k n))"
proof -
  obtain es' ta' where r: "advance_projection_epochs_loop es m [] = (es', ta')" by force
  have adv: "advance_projection_epochs es m = es' @ map snd ta'"
    using r by (simp add: advance_projection_epochs_def)
  have ok0: "to_add_ok m ([] :: ('e \<times> ('e, 'w word, 'p, 's) ProjectionEpoch) list)"
    by (simp add: to_add_ok_def)
  note P = advance_projection_epochs_loop_props [OF r ok0]
  have ta: "to_add_ok m ta'" using P by blast
  have es1: "\<forall>x\<in>set es'. ProjectionEpoch.valid_fields x AND m = 0" using P by blast
  have nz: "\<forall>x\<in>set es'. ProjectionEpoch.valid_fields x \<noteq> 0"
    using P assms by (simp add: projection_epochs_ok_def)
  have dj: "epochs_disjoint es'"
    using P assms by (simp add: projection_epochs_ok_def)
  have cross: "ProjectionEpoch.valid_fields x AND ProjectionEpoch.valid_fields y = 0"
    if "x \<in> set es'" "y \<in> set (map snd ta')" for x y
  proof -
    have "ProjectionEpoch.valid_fields x AND m = 0" using es1 that(1) by blast
    moreover have "ProjectionEpoch.valid_fields y AND NOT m = 0"
      using ta that(2) by (auto simp: to_add_ok_def)
    ultimately show ?thesis by (auto simp: bit_eq_iff bit_simps)
  qed
  have inv: "projection_epochs_ok (es' @ map snd ta')"
    unfolding projection_epochs_ok_def epochs_disjoint_append
    using nz dj ta to_add_ok_disjoint [OF ta] cross by (auto simp: to_add_ok_def)
  have ch: "in_epoch (es' @ map snd ta') k n \<longleftrightarrow>
      (in_epoch es k n \<and> \<not> bit m n) \<or>
      (\<exists>e\<in>set es. epoch_id e + 1 = k \<and> bit (ProjectionEpoch.valid_fields e) n \<and> bit m n)"
    for k n
  proof -
    have "in_epoch es' k n \<longleftrightarrow> in_epoch es k n \<and> \<not> bit m n" using P by blast
    moreover have "in_epoch (map snd ta') k n \<longleftrightarrow>
      (\<exists>e\<in>set es. epoch_id e + 1 = k \<and> bit (ProjectionEpoch.valid_fields e) n \<and> bit m n)"
      using P by (simp add: in_epoch_def)
    ultimately show ?thesis by (simp add: in_epoch_append)
  qed
  show ?thesis
    unfolding adv using inv ch by (auto simp: in_epoch_def)
qed

theorem advance_projection_epochs_invariant_witness:
  "projection_epochs_ok
     (advance_projection_epochs
        [new_ProjectionEpoch (1::64 word) (3::8 word) :: (64 word, 8 word, nat, nat) ProjectionEpoch,
         new_ProjectionEpoch 2 4, new_ProjectionEpoch 1 8] 5) \<and>
   advance_projection_epochs
        [new_ProjectionEpoch (1::64 word) (3::8 word) :: (64 word, 8 word, nat, nat) ProjectionEpoch,
         new_ProjectionEpoch 2 4, new_ProjectionEpoch 1 8] 5
     = [new_ProjectionEpoch 1 2, new_ProjectionEpoch 1 8, new_ProjectionEpoch 2 1,
        new_ProjectionEpoch 3 4]"
  using advance_projection_epochs_invariant
    [of "[new_ProjectionEpoch (1::64 word) (3::8 word) :: (64 word, 8 word, nat, nat) ProjectionEpoch,
         new_ProjectionEpoch 2 4, new_ProjectionEpoch 1 8]" 5]
  by (simp add: projection_epochs_ok_def advance_projection_epochs_def new_ProjectionEpoch_def Let_def)

section \<open>Properties of the versioning layer\<close>

subsection \<open>Exclusive and shared requests\<close>

lemma new_FieldState_open_state:
  "new_FieldState u m c =
     Some \<lparr>FieldState.valid_fields = m, open_children = [(c, m)],
           open_state = (case privilege u of
                           NO_ACCESS \<Rightarrow> OPEN_READ_ONLY | READ_ONLY \<Rightarrow> OPEN_READ_ONLY
                         | READ_WRITE \<Rightarrow> OPEN_READ_WRITE | WRITE_DISCARD \<Rightarrow> OPEN_READ_WRITE
                         | REDUCE \<Rightarrow> OPEN_SINGLE_REDUCE),
           FieldState.redop = (if privilege u = REDUCE then redop u else 0),
           projection = None, projection_space = None, rebuild_timeout = 1\<rparr>"
  by (cases "privilege u")
     (simp_all add: new_FieldState_def IS_READ_ONLY_def IS_WRITE_def IS_REDUCE_def)

text \<open>
  Claim C1, as the code has it. \<^verbatim>\<open>VersionInfo::make_ready\<close> sends one request to every
  recorded equivalence set, in their order, each with the ready mask, and each exclusive
  exactly when \<^verbatim>\<open>IS_WRITE\<close> holds of the usage, that is for ReadWrite and WriteDiscard.
  All other requests are shared, those of a reducing usage among them.
\<close>

theorem make_ready_exclusive:
  "make_ready vi u ready_mask =
     map (\<lambda>q. \<lparr>target = q, request_mask = ready_mask,
               exclusive = (privilege u = READ_WRITE \<or> privilege u = WRITE_DISCARD)\<rparr>)
         (equivalence_sets vi)"
  by (simp add: make_ready_def IS_WRITE_def)

text \<open>
  A reducing usage, which the constructor of \<^verbatim>\<open>FieldState\<close> opens in
  \<^verbatim>\<open>OPEN_SINGLE_REDUCE\<close>, is sent as a shared request to the one recorded set.
\<close>

theorem make_ready_reduce_counterexample:
  "make_ready \<lparr>equivalence_sets = [7::nat]\<rparr>
      \<lparr>privilege = REDUCE, usage_prop = EXCLUSIVE, redop = 3::nat\<rparr> (1::8 word) =
     [\<lparr>target = 7, request_mask = 1, exclusive = False\<rparr>] \<and>
   map_option open_state
     (new_FieldState \<lparr>privilege = REDUCE, usage_prop = EXCLUSIVE, redop = 3::nat\<rparr> (1::8 word) (0::nat)
        :: (8 word, nat, nat, nat, nat) FieldState option) = Some OPEN_SINGLE_REDUCE"
  by (simp add: make_ready_def new_FieldState_def IS_READ_ONLY_def IS_WRITE_def IS_REDUCE_def)

subsection \<open>Resetting twice\<close>

text \<open>
  Claim C9. A \<^verbatim>\<open>LogicalState\<close> that was reset has no field states, users, reduction
  fields, outstanding reductions or projection epochs, and resetting it again returns the
  same state and gives back no mapping reference. A \<^verbatim>\<open>VersionManager\<close> that was reset
  has no equivalence sets, no ready event, no context, and both flags false; resetting it
  again changes neither the manager nor any reference count.
\<close>

theorem reset_idempotent:
  "LogicalState_reset (fst (LogicalState_reset st)) = (fst (LogicalState_reset st), []) \<and>
   fst (LogicalState_reset st) =
     st\<lparr>field_states := [], curr_epoch_users := [], prev_epoch_users := [],
        reduction_fields := 0, outstanding_reductions := [], projection_epochs := []\<rparr> \<and>
   VersionManager_reset (VersionManager_reset (vm, W)) = VersionManager_reset (vm, W) \<and>
   fst (VersionManager_reset (vm, W)) =
     vm\<lparr>is_owner := False, current_context := None, vm_equivalence_sets := [],
        equivalence_sets_ready := None, has_equivalence_sets := False\<rparr>"
  by (simp add: LogicalState_reset_def clear_logical_users_def VersionManager_reset_def)

subsection \<open>References held by a VersionInfo\<close>

lemma release_sets_deleted_refs:
  "distinct qs \<Longrightarrow>
     resource_refs (release_sets qs W) q = resource_refs W q - (if q \<in> set qs then 1 else 0)"
proof (induction qs arbitrary: W)
  case Nil
  then show ?case by simp
next
  case (Cons a qs)
  then show ?case by (auto simp: remove_base_resource_ref_def)
qed

lemma VersionInfo_balanced_step:
  assumes "VersionInfo_balanced W0 s"
  shows "VersionInfo_balanced W0 (VersionInfo_step c s)"
proof (cases c)
  case (Record q)
  then show ?thesis using assms
    by (cases s)
       (auto simp: VersionInfo_balanced_def record_equivalence_set_def
          add_base_resource_ref_def distinct_insort set_insort_key)
next
  case Clear
  then show ?thesis using assms
    by (cases s) (auto simp: VersionInfo_balanced_def VersionInfo_clear_def release_sets_deleted_refs)
qed

lemma VersionInfo_balanced_fold:
  "VersionInfo_balanced W0 s \<Longrightarrow> VersionInfo_balanced W0 (fold VersionInfo_step calls s)"
proof (induction calls arbitrary: s)
  case Nil
  then show ?case by simp
next
  case (Cons c calls)
  have "VersionInfo_balanced W0 (VersionInfo_step c s)"
    using Cons.prems by (rule VersionInfo_balanced_step)
  then show ?case using Cons.IH by simp
qed

text \<open>
  Claim C10. After any sequence of \<^verbatim>\<open>record_equivalence_set\<close> and \<^verbatim>\<open>clear\<close> calls on
  a fresh \<^verbatim>\<open>VersionInfo\<close>, every set is stored at most once, every stored set holds
  exactly one reference more than before the sequence, and every other set holds as many
  as before. Recording a set stores it next to the sets already there and adds one
  reference to it if it was not stored, and none to any other set; recording the same set
  a second time changes nothing. On a \<^verbatim>\<open>VersionInfo\<close> without repetitions, \<^verbatim>\<open>clear\<close>
  empties the snapshot and removes one reference from each stored set and none from the
  others.
\<close>

theorem VersionInfo_references_balanced:
  "VersionInfo_balanced W (VersionInfo_run calls W) \<and>
   record_equivalence_set q (record_equivalence_set q s) = record_equivalence_set q s \<and>
   (distinct (equivalence_sets (fst s)) \<longrightarrow>
      equivalence_sets (fst (VersionInfo_clear s)) = [] \<and>
      (\<forall>p. resource_refs (snd (VersionInfo_clear s)) p =
           resource_refs (snd s) p - (if p \<in> set (equivalence_sets (fst s)) then 1 else 0))) \<and>
   set (equivalence_sets (fst (record_equivalence_set q s))) =
     insert q (set (equivalence_sets (fst s))) \<and>
   (\<forall>p. resource_refs (snd (record_equivalence_set q s)) p =
        resource_refs (snd s) p +
          (if p = q \<and> q \<notin> set (equivalence_sets (fst s)) then 1 else 0)) \<and>
   deleted (snd (record_equivalence_set q s)) = deleted (snd s) \<and>
   (distinct (equivalence_sets (fst s)) \<longrightarrow>
      distinct (equivalence_sets (fst (record_equivalence_set q s))) \<and>
      length (equivalence_sets (fst (record_equivalence_set q s))) =
        length (equivalence_sets (fst s)) +
          (if q \<in> set (equivalence_sets (fst s)) then 0 else 1))"
proof -
  have "VersionInfo_balanced W (new_VersionInfo, W)"
    by (simp add: VersionInfo_balanced_def new_VersionInfo_def)
  then have a: "VersionInfo_balanced W (VersionInfo_run calls W)"
    unfolding VersionInfo_run_def by (rule VersionInfo_balanced_fold)
  have b: "record_equivalence_set q (record_equivalence_set q s) = record_equivalence_set q s"
    by (cases s) (simp add: record_equivalence_set_def set_insort_key)
  have c: "equivalence_sets (fst (VersionInfo_clear s)) = [] \<and>
      (\<forall>p. resource_refs (snd (VersionInfo_clear s)) p =
           resource_refs (snd s) p - (if p \<in> set (equivalence_sets (fst s)) then 1 else 0))"
    if "distinct (equivalence_sets (fst s))"
    using that by (cases s) (auto simp: VersionInfo_clear_def release_sets_deleted_refs)
  have d: "set (equivalence_sets (fst (record_equivalence_set q s))) =
     insert q (set (equivalence_sets (fst s)))"
    by (cases s) (auto simp: record_equivalence_set_def set_insort_key)
  have e: "\<forall>p. resource_refs (snd (record_equivalence_set q s)) p =
        resource_refs (snd s) p +
          (if p = q \<and> q \<notin> set (equivalence_sets (fst s)) then 1 else 0)"
    by (cases s) (simp add: record_equivalence_set_def add_base_resource_ref_def)
  have f: "deleted (snd (record_equivalence_set q s)) = deleted (snd s)"
    by (cases s) (simp add: record_equivalence_set_def add_base_resource_ref_def)
  have g: "distinct (equivalence_sets (fst (record_equivalence_set q s))) \<and>
      length (equivalence_sets (fst (record_equivalence_set q s))) =
        length (equivalence_sets (fst s)) +
          (if q \<in> set (equivalence_sets (fst s)) then 0 else 1)"
    if "distinct (equivalence_sets (fst s))"
    using that by (cases s) (simp add: record_equivalence_set_def distinct_insort)
  show ?thesis using a b c d e f g by blast
qed

theorem VersionInfo_references_balanced_witness:
  "VersionInfo_balanced \<lparr>resource_refs = (\<lambda>q. 1), deleted = []\<rparr> (VersionInfo_run [Record (3::nat), Record 1, Record 3] \<lparr>resource_refs = (\<lambda>q. 1), deleted = []\<rparr>) \<and>
   equivalence_sets (fst (VersionInfo_run [Record (3::nat), Record 1, Record 3] \<lparr>resource_refs = (\<lambda>q. 1), deleted = []\<rparr>)) = [1, 3] \<and>
   resource_refs (snd (VersionInfo_run [Record (3::nat), Record 1, Record 3] \<lparr>resource_refs = (\<lambda>q. 1), deleted = []\<rparr>)) 3 = 2 \<and>
   resource_refs (snd (VersionInfo_run [Record (3::nat), Record 1, Record 3] \<lparr>resource_refs = (\<lambda>q. 1), deleted = []\<rparr>)) 2 = 1 \<and>
   distinct (equivalence_sets (fst (VersionInfo_run [Record (3::nat), Record 1, Record 3] \<lparr>resource_refs = (\<lambda>q. 1), deleted = []\<rparr>))) \<and>
   equivalence_sets
     (fst (VersionInfo_clear (VersionInfo_run [Record (3::nat), Record 1, Record 3] \<lparr>resource_refs = (\<lambda>q. 1), deleted = []\<rparr>))) = [] \<and>
   resource_refs
     (snd (VersionInfo_clear (VersionInfo_run [Record (3::nat), Record 1, Record 3] \<lparr>resource_refs = (\<lambda>q. 1), deleted = []\<rparr>))) 3 = 1"
  using VersionInfo_references_balanced
    [of "\<lparr>resource_refs = (\<lambda>q. 1), deleted = []\<rparr>" "[Record (3::nat), Record 1, Record 3]" 3
        "VersionInfo_run [Record (3::nat), Record 1, Record 3] \<lparr>resource_refs = (\<lambda>q. 1), deleted = []\<rparr>"]
  by (simp add: VersionInfo_run_def new_VersionInfo_def
        record_equivalence_set_def VersionInfo_clear_def add_base_resource_ref_def
        remove_base_resource_ref_def)
section \<open>Properties of instance sets\<close>

subsection \<open>Packing and unpacking\<close>

lemma InstanceRef_eq_refl [simp]: "InstanceRef_eq r r"
  by (simp add: InstanceRef_eq_def)

lemma vectors_equal_refl [simp]: "vectors_equal xs xs"
  by (induction xs) simp_all

lemma vectors_equal_all2: "list_all2 InstanceRef_eq xs ys \<Longrightarrow> vectors_equal xs ys"
  by (induction xs ys rule: list_all2_induct) simp_all

lemma unpack_reference_pack:
  fixes s d :: "('m, 'w::len word, 'v) InstanceRef"
  assumes "managers_resolved rt [s]" and "manager s = None \<longrightarrow> manager d = None"
  shows "\<exists>r' ev. unpack_reference rt d (pack_reference rt s @ rest) = Some (r', ev, rest) \<and>
           InstanceRef_eq r' s"
proof (cases "manager s")
  case None
  then show ?thesis using assms by (simp add: pack_reference_def InstanceRef_eq_def)
next
  case (Some m)
  then have "did rt m \<noteq> 0" "fst (find_or_request_physical_manager rt (did rt m)) = m"
    using assms(1) by (simp_all add: managers_resolved_def)
  then show ?thesis using Some
    by (cases "find_or_request_physical_manager rt (did rt m)")
       (simp add: pack_reference_def InstanceRef_eq_def)
qed

lemma unpack_vector_pack:
  fixes v ss :: "('m, 'w::len word, 'v) InstanceRef list"
  assumes "length v = length ss" and "managers_resolved rt ss" and "no_stale_manager v ss"
  shows "\<exists>v' evs. unpack_vector rt v (concat (map (pack_reference rt) ss) @ rest) =
            Some (v', evs, rest) \<and> list_all2 InstanceRef_eq v' ss"
  using assms
proof (induction v ss rule: list_induct2)
  case Nil
  then show ?case by simp
next
  case (Cons d ds s ss)
  have r1: "managers_resolved rt [s]" and r2: "managers_resolved rt ss"
    using Cons.prems(1) by (simp_all add: managers_resolved_def)
  have n1: "manager s = None \<longrightarrow> manager d = None"
    using Cons.prems(2) unfolding no_stale_manager_def by (metis length_Cons nth_Cons_0 zero_less_Suc)
  have n2: "no_stale_manager ds ss"
    unfolding no_stale_manager_def
  proof (intro allI impI)
    fix i assume "i < length ds \<and> i < length ss \<and> manager (ss ! i) = None"
    then have "Suc i < length (d # ds) \<and> Suc i < length (s # ss) \<and> manager ((s # ss) ! Suc i) = None"
      by simp
    then have "manager ((d # ds) ! Suc i) = None"
      using Cons.prems(2) unfolding no_stale_manager_def by blast
    then show "manager (ds ! i) = None" by simp
  qed
  obtain r' ev where u: "unpack_reference rt d (pack_reference rt s @
        (concat (map (pack_reference rt) ss) @ rest)) =
      Some (r', ev, concat (map (pack_reference rt) ss) @ rest)" and e: "InstanceRef_eq r' s"
    using unpack_reference_pack [OF r1 n1] by blast
  obtain v' evs where w: "unpack_vector rt ds (concat (map (pack_reference rt) ss) @ rest) =
            Some (v', evs, rest)" and a: "list_all2 InstanceRef_eq v' ss"
    using Cons.IH [OF r2 n2] by blast
  show ?case using u e w a by simp
qed


text \<open>The definitions of the heap primitives, to unfold together.\<close>

lemmas heap_defs = the_single_def the_multi_def set_cell_def delete_cell_def heap_new_def
  release_single_def release_multi_def

lemma no_stale_manager_new:
  "no_stale_manager (replicate n (new_InstanceRef :: ('m, 'w::len word, 'v) InstanceRef)) ss"
  by (simp add: no_stale_manager_def new_InstanceRef_def)

lemma no_stale_manager_resize:
  fixes vd :: "('m, 'w::len word, 'v) InstanceRef list"
  assumes "no_stale_manager vd ss"
  shows "no_stale_manager (take n vd @ replicate (n - length vd) new_InstanceRef) ss"
  unfolding no_stale_manager_def
proof (intro allI impI)
  fix i
  assume a: "i < length (take n vd @ replicate (n - length vd) new_InstanceRef) \<and>
             i < length ss \<and> manager (ss ! i) = None"
  show "manager ((take n vd @ replicate (n - length vd) new_InstanceRef) ! i) = None"
  proof (cases "i < length (take n vd)")
    case True
    then have "(take n vd @ replicate (n - length vd) new_InstanceRef) ! i = vd ! i"
      by (simp add: nth_append)
    moreover have "manager (vd ! i) = None"
      using assms a True unfolding no_stale_manager_def by simp
    ultimately show ?thesis by simp
  next
    case False
    then have "i - length (take n vd) < n - length vd"
      using a by auto
    then have "(take n vd @ replicate (n - length vd) new_InstanceRef) ! i =
        (new_InstanceRef :: ('m, 'w word, 'v) InstanceRef)"
      using False by (simp only: nth_append if_False nth_replicate)
    then show ?thesis by (simp add: new_InstanceRef_def)
  qed
qed

lemma roundtrip_empty:
  fixes h :: "('m, 'w::len word, 'v) heap"
  assumes "valid_set h d" and "single d" and "single s" and "refs s = None"
  shows "\<exists>h' d' evs. pack_references rt s h = Some [W_size 0] \<and>
           unpack_references rt d h [W_size 0] = Some (h', d', evs, []) \<and>
           InstanceSet_eq h' d' s = Some True \<and> InstanceSet_contents d' h' = Some []"
proof (cases "refs d")
  case None
  then show ?thesis using assms
    by (simp add: pack_references_def unpack_references_def InstanceSet_eq_def InstanceSet_contents_def)
next
  case (Some p)
  then obtain r c where "cells h p = Some (CollectableRef r c)" "0 < c"
    using assms(1,2) by (auto simp: valid_set_def)
  then show ?thesis using assms Some
    by (auto simp: pack_references_def unpack_references_def InstanceSet_eq_def
          InstanceSet_contents_def heap_defs)
qed


lemma roundtrip_single:
  fixes h :: "('m, 'w::len word, 'v) heap"
  assumes ok: "heap_ok h" and vd: "valid_set h d"
    and s: "single s" "refs s = Some ps" "cells h ps = Some (CollectableRef x cs)"
    and res: "managers_resolved rt [x]"
    and ds: "InstanceSet_contents d h = Some ds"
    and stale: "single d \<longrightarrow> no_stale_manager ds [x]"
  shows "\<exists>h' d' evs r'. pack_references rt s h = Some (W_size 1 # pack_reference rt x) \<and>
           unpack_references rt d h (W_size 1 # pack_reference rt x) = Some (h', d', evs, []) \<and>
           InstanceSet_eq h' d' s = Some True \<and> InstanceSet_contents d' h' = Some [r'] \<and>
           InstanceRef_eq r' x"
proof -
  have pk: "pack_references rt s h = Some (W_size 1 # pack_reference rt x)"
    using s by (simp add: pack_references_def the_single_def)
  have fresh: "cells h (next_free h) = None" "ps \<noteq> next_free h"
    using ok s(3) by (auto simp: heap_ok_def)
  have new: "\<exists>r' ev. unpack_reference rt (new_InstanceRef :: ('m, 'w word, 'v) InstanceRef)
        (pack_reference rt x) = Some (r', ev, []) \<and> InstanceRef_eq r' x"
    using unpack_reference_pack [OF res, of new_InstanceRef "[]"]
    by (simp add: new_InstanceRef_def)
  show ?thesis
  proof (cases "single d")
    case False
    then obtain pd v c where d: "refs d = Some pd" "cells h pd = Some (InternalSet v c)" "0 < c"
      using vd by (auto simp: valid_set_def split: option.splits)
    have ne: "pd \<noteq> ps" "pd \<noteq> next_free h" using d s(3) fresh by auto
    obtain r' ev where u: "unpack_reference rt (new_InstanceRef :: ('m, 'w word, 'v) InstanceRef)
        (pack_reference rt x) = Some (r', ev, [])" and e: "InstanceRef_eq r' x"
      using new by blast
    show ?thesis
      using pk False d ne fresh s u e
      by (auto simp: unpack_references_def InstanceSet_eq_def InstanceSet_contents_def heap_defs)
  next
    case True
    show ?thesis
    proof (cases "refs d")
      case None
      obtain r' ev where u: "unpack_reference rt (new_InstanceRef :: ('m, 'w word, 'v) InstanceRef)
          (pack_reference rt x) = Some (r', ev, [])" and e: "InstanceRef_eq r' x"
        using new by blast
      show ?thesis
        using pk True None fresh s u e
        by (auto simp: unpack_references_def InstanceSet_eq_def InstanceSet_contents_def heap_defs)
    next
      case (Some pd)
      then obtain rd c where d: "cells h pd = Some (CollectableRef rd c)" "0 < c"
        using vd True by (auto simp: valid_set_def)
      have "ds = [rd]"
        using ds True Some d by (simp add: InstanceSet_contents_def the_single_def)
      then have "manager x = None \<longrightarrow> manager rd = None"
        using stale True by (simp add: no_stale_manager_def)
      then obtain r' ev where u: "unpack_reference rt rd (pack_reference rt x) = Some (r', ev, [])"
        and e: "InstanceRef_eq r' x"
        using unpack_reference_pack [OF res, of rd "[]"] by auto
      show ?thesis
        using pk True Some d s u e
        by (auto simp: unpack_references_def InstanceSet_eq_def InstanceSet_contents_def heap_defs)
    qed
  qed
qed


lemma roundtrip_multi:
  fixes h :: "('m, 'w::len word, 'v) heap"
  assumes ok: "heap_ok h" and vd: "valid_set h d"
    and s: "\<not> single s" "refs s = Some ps" "cells h ps = Some (InternalSet ss cs)"
    and len: "2 \<le> length ss"
    and res: "managers_resolved rt ss"
    and ds: "InstanceSet_contents d h = Some ds"
    and stale: "\<not> single d \<longrightarrow> no_stale_manager ds ss"
  shows "\<exists>h' d' evs ds'.
           pack_references rt s h =
             Some (W_size (length ss) # concat (map (pack_reference rt) ss)) \<and>
           unpack_references rt d h (W_size (length ss) # concat (map (pack_reference rt) ss)) =
             Some (h', d', evs, []) \<and>
           InstanceSet_eq h' d' s = Some True \<and> InstanceSet_contents d' h' = Some ds' \<and>
           list_all2 InstanceRef_eq ds' ss"
proof -
  let ?n = "length ss"
  let ?bytes = "concat (map (pack_reference rt) ss)"
  have pk: "pack_references rt s h = Some (W_size ?n # ?bytes)"
    using s by (simp add: pack_references_def the_multi_def)
  have n: "?n \<noteq> 0" "?n \<noteq> 1" using len by auto
  have fresh: "cells h (next_free h) = None" "ps \<noteq> next_free h"
    using ok s(3) by (auto simp: heap_ok_def)
  have new: "\<exists>v' evs. unpack_vector rt
        (replicate ?n (new_InstanceRef :: ('m, 'w word, 'v) InstanceRef)) ?bytes =
          Some (v', evs, []) \<and> list_all2 InstanceRef_eq v' ss"
    using unpack_vector_pack [OF _ res no_stale_manager_new, of ?n "[]"] by simp
  show ?thesis
  proof (cases "single d")
    case True
    obtain v' evs where u: "unpack_vector rt
        (replicate ?n (new_InstanceRef :: ('m, 'w word, 'v) InstanceRef)) ?bytes =
          Some (v', evs, [])" and e: "list_all2 InstanceRef_eq v' ss"
      using new by blast
    have l: "length v' = ?n" using e by (rule list_all2_lengthD)
    have q: "vectors_equal v' ss" using e by (rule vectors_equal_all2)
    show ?thesis
    proof (cases "refs d")
      case None
      show ?thesis
        using pk n True None fresh s u e l q
        by (auto simp: unpack_references_def InstanceSet_eq_def InstanceSet_contents_def heap_defs)
    next
      case (Some pd)
      then obtain rd c where d: "cells h pd = Some (CollectableRef rd c)" "0 < c"
        using vd True by (auto simp: valid_set_def)
      have ne: "pd \<noteq> ps" "pd \<noteq> next_free h" using d s(3) fresh by auto
      show ?thesis
        using pk n True Some d ne fresh s u e l q
        by (auto simp: unpack_references_def InstanceSet_eq_def InstanceSet_contents_def heap_defs)
    qed
  next
    case False
    then obtain pd vd c where d: "refs d = Some pd" "cells h pd = Some (InternalSet vd c)" "0 < c"
      using vd by (auto simp: valid_set_def split: option.splits)
    have "ds = vd"
      using ds False d by (simp add: InstanceSet_contents_def the_multi_def)
    then have st: "no_stale_manager vd ss" using stale False by simp
    let ?v0 = "take ?n vd @ replicate (?n - length vd) (new_InstanceRef :: ('m, 'w word, 'v) InstanceRef)"
    have l0: "length ?v0 = ?n" by auto
    obtain v' evs where u: "unpack_vector rt ?v0 ?bytes = Some (v', evs, [])"
      and e: "list_all2 InstanceRef_eq v' ss"
      using unpack_vector_pack [OF l0 res no_stale_manager_resize [OF st], of "[]"] by auto
    have l: "length v' = ?n" using e by (rule list_all2_lengthD)
    have q: "vectors_equal v' ss" using e by (rule vectors_equal_all2)
    show ?thesis
      using pk n False d s u e l q
      by (auto simp: unpack_references_def InstanceSet_eq_def InstanceSet_contents_def heap_defs)
  qed
qed

text \<open>
  Where the round trip holds. Let the heap be well formed and the source set \<open>s\<close> and
  the destination \<open>d\<close> valid in it, let \<open>s\<close> be in single mode exactly when it has at
  most one element, and let the runtime resolve the managers of \<open>s\<close> (distributed ids
  other than \<open>0\<close> that look up to the same manager). Let \<open>d\<close> be in single mode if \<open>s\<close>
  is empty, and, if the mode of \<open>d\<close> already fits the number of elements of \<open>s\<close>, let
  \<open>d\<close> hold no manager at a position where \<open>s\<close> holds none. Then packing \<open>s\<close> and
  unpacking the values into \<open>d\<close> succeeds, consumes all of them, and makes \<open>d\<close> equal
  to \<open>s\<close> under \<^verbatim>\<open>InstanceSet::operator==\<close>, element by element under
  \<^verbatim>\<open>InstanceRef::operator==\<close>. A destination that was constructed empty is of this kind.
\<close>

lemma pack_unpack_roundtrip:
  fixes h :: "('m, 'w::len word, 'v) heap"
  assumes "heap_ok h" and "valid_set h s" and "valid_set h d"
    and "InstanceSet_contents s h = Some ss" and "InstanceSet_contents d h = Some ds"
    and "single s \<longleftrightarrow> length ss \<le> 1"
    and "managers_resolved rt ss"
    and "ss = [] \<longrightarrow> single d"
    and "single d = (length ss \<le> 1) \<longrightarrow> no_stale_manager ds ss"
  shows "\<exists>bytes h' d' evs ds'.
           pack_references rt s h = Some bytes \<and>
           unpack_references rt d h bytes = Some (h', d', evs, []) \<and>
           InstanceSet_eq h' d' s = Some True \<and>
           InstanceSet_contents d' h' = Some ds' \<and> list_all2 InstanceRef_eq ds' ss"
proof (cases "single s")
  case True
  show ?thesis
  proof (cases "refs s")
    case None
    then have "ss = []" using assms(4) True by (simp add: InstanceSet_contents_def)
    then have "single d" using assms(8) by simp
    then show ?thesis
      using roundtrip_empty [OF assms(3) _ True None, of rt] \<open>ss = []\<close> by fastforce
  next
    case (Some ps)
    then obtain x cs where c: "cells h ps = Some (CollectableRef x cs)"
      using assms(2) True by (auto simp: valid_set_def)
    then have ss: "ss = [x]"
      using assms(4) True Some by (simp add: InstanceSet_contents_def the_single_def)
    have st: "single d \<longrightarrow> no_stale_manager ds [x]" using assms(9) ss by simp
    have res: "managers_resolved rt [x]" using assms(7) ss by simp
    show ?thesis
      using roundtrip_single [OF assms(1,3) True Some c res assms(5) st] ss by fastforce
  qed
next
  case False
  then obtain ps v cs where c: "refs s = Some ps" "cells h ps = Some (InternalSet v cs)"
    using assms(2) by (auto simp: valid_set_def split: option.splits)
  then have ss: "ss = v"
    using assms(4) False by (simp add: InstanceSet_contents_def the_multi_def)
  have len: "2 \<le> length ss" using assms(6) False by simp
  have st: "\<not> single d \<longrightarrow> no_stale_manager ds ss" using assms(9) len by auto
  show ?thesis
    using roundtrip_multi [OF assms(1,3) False c(1) c(2) [folded ss] len assms(7) assms(5) st]
    by fastforce
qed


text \<open>
  Claim C6 fails on a destination that is reused. The source \<open>s\<close> is a set with one
  default reference, which has no manager; the destination \<open>d\<close> is a set with one
  reference to manager \<open>5\<close>, with the fields \<open>3\<close> and the ready event \<open>11\<close>. Packing
  \<open>s\<close> writes the distributed id \<open>0\<close> for the null manager. Unpacking into \<open>d\<close>
  overwrites the fields and the event of its element in place, and \<^verbatim>\<open>unpack_reference\<close>
  returns at the distributed id \<open>0\<close> before it touches the manager: \<open>d\<close> keeps manager
  \<open>5\<close> and \<^verbatim>\<open>operator==\<close> tells it apart from \<open>s\<close>.
\<close>

theorem unpack_references_keeps_stale_manager:
  "InstanceSet_init 1 (empty_heap :: (nat, 8 word, nat) heap) =
     (\<lparr>cells = (\<lambda>p. None)(1 \<mapsto> CollectableRef new_InstanceRef 1), next_free = 2\<rparr>,
      \<lparr>single = True, shared = False, refs = Some 1\<rparr>) \<and>
   InstanceSet_init 1
     (\<lparr>cells = (\<lambda>p. None)(1 \<mapsto> CollectableRef new_InstanceRef 1), next_free = 2\<rparr>
        :: (nat, 8 word, nat) heap) =
     (\<lparr>cells = (\<lambda>p. None)(1 \<mapsto> CollectableRef new_InstanceRef 1,
                            2 \<mapsto> CollectableRef new_InstanceRef 1), next_free = 3\<rparr>,
      \<lparr>single = True, shared = False, refs = Some 2\<rparr>) \<and>
   InstanceSet_index 0 \<lparr>single = True, shared = False, refs = Some 2\<rparr>
     (\<lparr>cells = (\<lambda>p. None)(1 \<mapsto> CollectableRef new_InstanceRef 1,
                            2 \<mapsto> CollectableRef new_InstanceRef 1), next_free = 3\<rparr>
        :: (nat, 8 word, nat) heap) =
     Some (\<lparr>cells = (\<lambda>p. None)(1 \<mapsto> CollectableRef new_InstanceRef 1,
                                  2 \<mapsto> CollectableRef new_InstanceRef 1), next_free = 3\<rparr>,
           \<lparr>single = True, shared = False, refs = Some 2\<rparr>, 2, 0) \<and>
   assign_through (2, 0)
     \<lparr>InstanceRef.valid_fields = (3::8 word), ready_event = Some (11::nat),
      manager = Some (5::nat), local = True\<rparr>
     \<lparr>cells = (\<lambda>p. None)(1 \<mapsto> CollectableRef new_InstanceRef 1,
                           2 \<mapsto> CollectableRef new_InstanceRef 1), next_free = 3\<rparr> =
     Some \<lparr>cells = (\<lambda>p. None)(1 \<mapsto> CollectableRef new_InstanceRef 1,
             2 \<mapsto> CollectableRef \<lparr>InstanceRef.valid_fields = (3::8 word),
                    ready_event = Some (11::nat), manager = Some (5::nat), local = True\<rparr> 1),
           next_free = 3\<rparr> \<and>
   pack_references example_runtime \<lparr>single = True, shared = False, refs = Some 1\<rparr>
     \<lparr>cells = (\<lambda>p. None)(1 \<mapsto> CollectableRef new_InstanceRef 1,
             2 \<mapsto> CollectableRef \<lparr>InstanceRef.valid_fields = (3::8 word),
                    ready_event = Some (11::nat), manager = Some (5::nat), local = True\<rparr> 1),
      next_free = 3\<rparr> =
     Some [W_size 1, W_mask 0, W_event None, W_did 0] \<and>
   unpack_references example_runtime \<lparr>single = True, shared = False, refs = Some 2\<rparr>
     \<lparr>cells = (\<lambda>p. None)(1 \<mapsto> CollectableRef new_InstanceRef 1,
             2 \<mapsto> CollectableRef \<lparr>InstanceRef.valid_fields = (3::8 word),
                    ready_event = Some (11::nat), manager = Some (5::nat), local = True\<rparr> 1),
      next_free = 3\<rparr>
     [W_size 1, W_mask 0, W_event None, W_did 0] =
     Some (\<lparr>cells = (\<lambda>p. None)(1 \<mapsto> CollectableRef new_InstanceRef 1,
              2 \<mapsto> CollectableRef \<lparr>InstanceRef.valid_fields = (0::8 word),
                     ready_event = None, manager = Some (5::nat), local = True\<rparr> 1),
            next_free = 3\<rparr>,
           \<lparr>single = True, shared = False, refs = Some 2\<rparr>, [], []) \<and>
   InstanceSet_eq
     \<lparr>cells = (\<lambda>p. None)(1 \<mapsto> CollectableRef new_InstanceRef 1,
             2 \<mapsto> CollectableRef \<lparr>InstanceRef.valid_fields = (0::8 word),
                    ready_event = (None :: nat option), manager = Some (5::nat), local = True\<rparr> 1),
      next_free = 3\<rparr>
     \<lparr>single = True, shared = False, refs = Some 2\<rparr>
     \<lparr>single = True, shared = False, refs = Some 1\<rparr> = Some False"
  by (auto simp: InstanceSet_init_def InstanceSet_index_def assign_through_def
        pack_references_def pack_reference_def unpack_references_def InstanceSet_eq_def
        InstanceRef_eq_def new_InstanceRef_def example_runtime_def empty_heap_def heap_defs
        fun_eq_iff)

text \<open>
  A second way for a reused destination to differ. The destination is a set with two
  elements and the source is empty. With no reference to unpack, \<^verbatim>\<open>unpack_references\<close>
  releases the vector and sets \<^verbatim>\<open>single\<close> but keeps the pointer, where the branch for
  one reference and \<^verbatim>\<open>resize(0)\<close> set it to null: the destination reports one element,
  differs from the source, and its element is read from storage that was deleted.
\<close>

lemma unpack_references_keeps_deleted_storage:
  "InstanceSet_init 2 (empty_heap :: (nat, 8 word, nat) heap) =
     (\<lparr>cells = (\<lambda>p. None)(1 \<mapsto> InternalSet [new_InstanceRef, new_InstanceRef] 1), next_free = 2\<rparr>,
      \<lparr>single = False, shared = False, refs = Some 1\<rparr>) \<and>
   InstanceSet_init 0
     (\<lparr>cells = (\<lambda>p. None)(1 \<mapsto> InternalSet [new_InstanceRef, new_InstanceRef] 1), next_free = 2\<rparr>
        :: (nat, 8 word, nat) heap) =
     (\<lparr>cells = (\<lambda>p. None)(1 \<mapsto> InternalSet [new_InstanceRef, new_InstanceRef] 1), next_free = 2\<rparr>,
      \<lparr>single = True, shared = False, refs = None\<rparr>) \<and>
   pack_references example_runtime \<lparr>single = True, shared = False, refs = None\<rparr>
     (\<lparr>cells = (\<lambda>p. None)(1 \<mapsto> InternalSet [new_InstanceRef, new_InstanceRef] 1), next_free = 2\<rparr>
        :: (nat, 8 word, nat) heap) = Some [W_size 0] \<and>
   unpack_references example_runtime \<lparr>single = False, shared = False, refs = Some 1\<rparr>
     (\<lparr>cells = (\<lambda>p. None)(1 \<mapsto> InternalSet [new_InstanceRef, new_InstanceRef] 1), next_free = 2\<rparr>
        :: (nat, 8 word, nat) heap) [W_size 0] =
     Some (\<lparr>cells = (\<lambda>p. None), next_free = 2\<rparr>,
           \<lparr>single = True, shared = False, refs = Some 1\<rparr>, [], []) \<and>
   InstanceSet_size \<lparr>single = True, shared = False, refs = Some 1\<rparr>
     (\<lparr>cells = (\<lambda>p. None), next_free = 2\<rparr> :: (nat, 8 word, nat) heap) = Some 1 \<and>
   InstanceSet_eq (\<lparr>cells = (\<lambda>p. None), next_free = 2\<rparr> :: (nat, 8 word, nat) heap)
     \<lparr>single = True, shared = False, refs = Some 1\<rparr>
     \<lparr>single = True, shared = False, refs = None\<rparr> = Some False \<and>
   InstanceSet_at 0 \<lparr>single = True, shared = False, refs = Some 1\<rparr>
     (\<lparr>cells = (\<lambda>p. None), next_free = 2\<rparr> :: (nat, 8 word, nat) heap) = None"
  by (auto simp: InstanceSet_init_def pack_references_def unpack_references_def
        InstanceSet_eq_def InstanceSet_size_def InstanceSet_at_def empty_heap_def heap_defs
        numeral_2_eq_2 fun_eq_iff)

text \<open>
  \<^verbatim>\<open>clear\<close> leaves a set built with two elements in multi mode with an empty vector,
  where \<^verbatim>\<open>resize(0)\<close> goes back to single mode. Packing the cleared set and unpacking
  into a fresh set gives an empty set in single mode, which \<^verbatim>\<open>operator==\<close> tells apart
  from the source.
\<close>

lemma pack_unpack_after_clear:
  "InstanceSet_init 2 (empty_heap :: (nat, 8 word, nat) heap) =
     (\<lparr>cells = (\<lambda>p. None)(1 \<mapsto> InternalSet [new_InstanceRef, new_InstanceRef] 1), next_free = 2\<rparr>,
      \<lparr>single = False, shared = False, refs = Some 1\<rparr>) \<and>
   InstanceSet_clear \<lparr>single = False, shared = False, refs = Some 1\<rparr>
     \<lparr>cells = (\<lambda>p. None)(1 \<mapsto> InternalSet [new_InstanceRef, new_InstanceRef] 1), next_free = 2\<rparr> =
     Some (\<lparr>cells = (\<lambda>p. None)(1 \<mapsto> InternalSet [] 1), next_free = 2\<rparr> :: (nat, 8 word, nat) heap,
           \<lparr>single = False, shared = False, refs = Some 1\<rparr>) \<and>
   InstanceSet_init 0 (\<lparr>cells = (\<lambda>p. None)(1 \<mapsto> InternalSet [] 1), next_free = 2\<rparr> :: (nat, 8 word, nat) heap) =
     (\<lparr>cells = (\<lambda>p. None)(1 \<mapsto> InternalSet [] 1), next_free = 2\<rparr>,
      \<lparr>single = True, shared = False, refs = None\<rparr>) \<and>
   pack_references example_runtime \<lparr>single = False, shared = False, refs = Some 1\<rparr>
     (\<lparr>cells = (\<lambda>p. None)(1 \<mapsto> InternalSet [] 1), next_free = 2\<rparr> :: (nat, 8 word, nat) heap) =
     Some [W_size 0] \<and>
   unpack_references example_runtime \<lparr>single = True, shared = False, refs = None\<rparr>
     (\<lparr>cells = (\<lambda>p. None)(1 \<mapsto> InternalSet [] 1), next_free = 2\<rparr> :: (nat, 8 word, nat) heap)
     [W_size 0] =
     Some (\<lparr>cells = (\<lambda>p. None)(1 \<mapsto> InternalSet [] 1), next_free = 2\<rparr>,
           \<lparr>single = True, shared = False, refs = None\<rparr>, [], []) \<and>
   InstanceSet_eq (\<lparr>cells = (\<lambda>p. None)(1 \<mapsto> InternalSet [] 1), next_free = 2\<rparr> :: (nat, 8 word, nat) heap)
     \<lparr>single = True, shared = False, refs = None\<rparr>
     \<lparr>single = False, shared = False, refs = Some 1\<rparr> = Some False"
  by (simp add: InstanceSet_init_def InstanceSet_clear_def empty_heap_def pack_references_def
        unpack_references_def InstanceSet_eq_def heap_defs numeral_2_eq_2)

subsection \<open>Copy on write\<close>

text \<open>
  Two sets \<open>a\<close> and \<open>b\<close> share one object that is counted at least twice, and \<open>b\<close>
  is marked shared. Writing through the non-const \<^verbatim>\<open>operator[]\<close> of \<open>b\<close>, adding an
  instance to \<open>b\<close> and resizing \<open>b\<close> all leave the contents of \<open>a\<close> as they were: each
  of them moves \<open>b\<close> to storage of its own before it writes.
\<close>

lemma copy_on_write_frame:
  fixes h :: "('m, 'w::len word, 'v) heap"
  assumes ok: "heap_ok h"
    and sh: "shared b" "refs a = Some p" "refs b = Some p" "single a = single b"
    and cell: "(single b \<and> (\<exists>x c. cells h p = Some (CollectableRef x c) \<and> 2 \<le> c)) \<or>
               (\<not> single b \<and> (\<exists>v c. cells h p = Some (InternalSet v c) \<and> 2 \<le> c))"
  shows "(\<forall>h1 b1 loc h2. InstanceSet_index i b h = Some (h1, b1, loc) \<and>
              assign_through loc r h1 = Some h2 \<longrightarrow>
            InstanceSet_contents a h2 = InstanceSet_contents a h) \<and>
         (\<forall>h1 b1. InstanceSet_add_instance r b h = Some (h1, b1) \<longrightarrow>
            InstanceSet_contents a h1 = InstanceSet_contents a h) \<and>
         (\<forall>h1 b1. InstanceSet_resize n b h = Some (h1, b1) \<longrightarrow>
            InstanceSet_contents a h1 = InstanceSet_contents a h)"
proof -
  have fresh: "cells h (next_free h) = None" "p \<noteq> next_free h"
    using ok cell by (auto simp: heap_ok_def)
  show ?thesis
  proof (cases "single b")
    case True
    then obtain x c where c: "cells h p = Some (CollectableRef x c)" "2 \<le> c"
      using cell by auto
    have c2: "c \<noteq> 0" "c \<noteq> 1" "c \<noteq> Suc 0" using c(2) by auto
    show ?thesis
      using True sh c c2 fresh
      by (auto simp: InstanceSet_index_def assign_through_def InstanceSet_add_instance_def
            InstanceSet_resize_def InstanceSet_contents_def make_copy_def heap_defs
            add_reference_multi_def add_reference_single_def
            split: if_splits option.splits)
  next
    case False
    then obtain v c where c: "cells h p = Some (InternalSet v c)" "2 \<le> c"
      using cell by auto
    have c2: "c \<noteq> 0" "c \<noteq> 1" "c \<noteq> Suc 0" using c(2) by auto
    show ?thesis
      using False sh c c2 fresh
      by (auto simp: InstanceSet_index_def assign_through_def InstanceSet_add_instance_def
            InstanceSet_resize_def InstanceSet_contents_def make_copy_def heap_defs
            add_reference_multi_def add_reference_single_def
            split: if_splits option.splits)
  qed
qed

text \<open>
  Claim C7 fails for \<^verbatim>\<open>unpack_references\<close>. A set \<open>a\<close> with one element is built and
  copied to \<open>b\<close>, so that both are marked shared and point to the same object, counted
  twice. Unpacking one reference into \<open>b\<close> writes into that object: afterwards \<open>a\<close>
  shows the unpacked element, not its own. The non-const \<^verbatim>\<open>operator[]\<close> on \<open>b\<close> in the
  same state first moves \<open>b\<close> to a copy at a fresh address.
\<close>

theorem unpack_references_writes_shared_storage:
  "InstanceSet_init 1 (empty_heap :: (nat, 8 word, nat) heap) =
     (\<lparr>cells = (\<lambda>p. None)(1 \<mapsto> CollectableRef new_InstanceRef 1), next_free = 2\<rparr>,
      \<lparr>single = True, shared = False, refs = Some 1\<rparr>) \<and>
   InstanceSet_index 0 \<lparr>single = True, shared = False, refs = Some 1\<rparr>
     (\<lparr>cells = (\<lambda>p. None)(1 \<mapsto> CollectableRef new_InstanceRef 1), next_free = 2\<rparr>
        :: (nat, 8 word, nat) heap) =
     Some (\<lparr>cells = (\<lambda>p. None)(1 \<mapsto> CollectableRef new_InstanceRef 1), next_free = 2\<rparr>,
           \<lparr>single = True, shared = False, refs = Some 1\<rparr>, 1, 0) \<and>
   assign_through (1, 0) \<lparr>InstanceRef.valid_fields = (3::8 word), ready_event = Some (11::nat), manager = Some (5::nat), local = True\<rparr>
     \<lparr>cells = (\<lambda>p. None)(1 \<mapsto> CollectableRef new_InstanceRef 1), next_free = 2\<rparr> =
     Some \<lparr>cells = (\<lambda>p. None)(1 \<mapsto> CollectableRef \<lparr>InstanceRef.valid_fields = (3::8 word), ready_event = Some (11::nat), manager = Some (5::nat), local = True\<rparr> 1), next_free = 2\<rparr> \<and>
   InstanceSet_copy \<lparr>single = True, shared = False, refs = Some 1\<rparr>
     \<lparr>cells = (\<lambda>p. None)(1 \<mapsto> CollectableRef \<lparr>InstanceRef.valid_fields = (3::8 word), ready_event = Some (11::nat), manager = Some (5::nat), local = True\<rparr> 1), next_free = 2\<rparr> =
     Some (\<lparr>cells = (\<lambda>p. None)(1 \<mapsto> CollectableRef \<lparr>InstanceRef.valid_fields = (3::8 word), ready_event = Some (11::nat), manager = Some (5::nat), local = True\<rparr> 2), next_free = 2\<rparr>,
           \<lparr>single = True, shared = True, refs = Some 1\<rparr>,
           \<lparr>single = True, shared = True, refs = Some 1\<rparr>) \<and>
   InstanceSet_contents \<lparr>single = True, shared = True, refs = Some 1\<rparr>
     \<lparr>cells = (\<lambda>p. None)(1 \<mapsto> CollectableRef \<lparr>InstanceRef.valid_fields = (3::8 word), ready_event = Some (11::nat), manager = Some (5::nat), local = True\<rparr> 2), next_free = 2\<rparr> = Some [\<lparr>InstanceRef.valid_fields = (3::8 word), ready_event = Some (11::nat), manager = Some (5::nat), local = True\<rparr>] \<and>
   unpack_references example_runtime \<lparr>single = True, shared = True, refs = Some 1\<rparr>
     \<lparr>cells = (\<lambda>p. None)(1 \<mapsto> CollectableRef \<lparr>InstanceRef.valid_fields = (3::8 word), ready_event = Some (11::nat), manager = Some (5::nat), local = True\<rparr> 2), next_free = 2\<rparr>
     (W_size 1 # pack_reference example_runtime \<lparr>InstanceRef.valid_fields = (4::8 word), ready_event = Some (12::nat), manager = Some (6::nat), local = True\<rparr>) =
     Some (\<lparr>cells = (\<lambda>p. None)(1 \<mapsto> CollectableRef \<lparr>InstanceRef.valid_fields = (4::8 word), ready_event = Some (12::nat), manager = Some (6::nat), local = False\<rparr> 2), next_free = 2\<rparr>,
           \<lparr>single = True, shared = False, refs = Some 1\<rparr>, [], []) \<and>
   InstanceSet_contents \<lparr>single = True, shared = True, refs = Some 1\<rparr>
     \<lparr>cells = (\<lambda>p. None)(1 \<mapsto> CollectableRef \<lparr>InstanceRef.valid_fields = (4::8 word), ready_event = Some (12::nat), manager = Some (6::nat), local = False\<rparr> 2), next_free = 2\<rparr> = Some [\<lparr>InstanceRef.valid_fields = (4::8 word), ready_event = Some (12::nat), manager = Some (6::nat), local = False\<rparr>] \<and>
   InstanceSet_index 0 \<lparr>single = True, shared = True, refs = Some 1\<rparr>
     \<lparr>cells = (\<lambda>p. None)(1 \<mapsto> CollectableRef \<lparr>InstanceRef.valid_fields = (3::8 word), ready_event = Some (11::nat), manager = Some (5::nat), local = True\<rparr> 2), next_free = 2\<rparr> =
     Some (\<lparr>cells = (\<lambda>p. None)(1 \<mapsto> CollectableRef \<lparr>InstanceRef.valid_fields = (3::8 word), ready_event = Some (11::nat), manager = Some (5::nat), local = True\<rparr> 1, 2 \<mapsto> CollectableRef \<lparr>InstanceRef.valid_fields = (3::8 word), ready_event = Some (11::nat), manager = Some (5::nat), local = True\<rparr> 1),
            next_free = 3\<rparr>,
           \<lparr>single = True, shared = False, refs = Some 2\<rparr>, 2, 0)"
  by (auto simp: InstanceSet_init_def InstanceSet_index_def assign_through_def InstanceSet_copy_def
        InstanceSet_contents_def unpack_references_def pack_reference_def example_runtime_def
        make_copy_def add_reference_single_def empty_heap_def heap_defs fun_eq_iff)

end
